theory Spec2Isabelle
  imports Main "HOL-Library.Word"
begin

section \<open>Data model of media.c\<close>

text \<open>
  The library drives a V4L2 capture device through system calls. The kernel is not part
  of the program, so its answers are a parameter of the model (a \<open>kernel\<close> record of
  answer functions, each reading the history of system calls made so far), and every
  system call the library makes is appended to a trace kept in the program state.
\<close>

definition MAX_DEVICES :: int where
  "MAX_DEVICES = 16"

definition VIDEO_MAX_PLANES :: nat where
  "VIDEO_MAX_PLANES = 8"

datatype media_error =
    MEDIA_ERROR_NONE
  | MEDIA_ERROR_INVALID_PARAM
  | MEDIA_ERROR_DEVICE_NOT_FOUND
  | MEDIA_ERROR_DEVICE_BUSY
  | MEDIA_ERROR_NOT_SUPPORTED
  | MEDIA_ERROR_OUT_OF_MEMORY
  | MEDIA_ERROR_IOCTL_FAILED
  | MEDIA_ERROR_TIMEOUT
  | MEDIA_ERROR_BUFFER_ERROR
  | MEDIA_ERROR_FORMAT_ERROR
  | MEDIA_ERROR_STREAMING_ERROR

text \<open>A \<open>void*\<close> as the library tests it: the null pointer, mmap's failure value, or an address.\<close>

datatype vptr = NULL | MAP_FAILED | Addr nat

text \<open>
  Arrays of the fixed size \<open>VIDEO_MAX_PLANES\<close> are functions from the index; every access
  is guarded by the bound where the source does not guard it itself.
\<close>

record media_format =
  width :: "32 word"
  height :: "32 word"
  pixelformat :: "32 word"
  field :: "32 word"
  num_planes :: "32 word"
  plane_size :: "nat \<Rightarrow> 32 word"

record media_buffer =
  start :: "nat \<Rightarrow> vptr"
  plane_length :: "nat \<Rightarrow> nat"
  buf_num_planes :: int
  index :: int
  bytes_used :: "32 word"
  timestamp :: "64 word"

record media_frame =
  frame_data :: vptr
  frame_size :: "32 word"
  frame_width :: "32 word"
  frame_height :: "32 word"
  frame_pixelformat :: "32 word"
  frame_timestamp :: "64 word"
  frame_id :: "32 word"

text \<open>
  \<open>device_context_t\<close>. The field \<open>info\<close> is left out: only
  \<open>libmedia_get_device_info\<close> touches it. \<open>buffers\<close> is a pointer to an array the caller
  owns: \<open>None\<close> is the null pointer, \<open>Some a\<close> the array stored at \<open>a\<close> in the heap below.
\<close>

record device_context =
  fd :: int
  device_path :: string
  format :: media_format
  buffers :: "nat option"
  buffer_count :: int
  streaming :: int
  use_multiplanar :: int

record media_session_config =
  cfg_device_path :: "string option"
  cfg_format :: media_format
  cfg_buffer_count :: int
  cfg_use_multiplanar :: int
  nonblocking :: int

text \<open>
  \<open>struct media_session\<close>. \<open>device\<close> points into \<open>g_devices\<close>; the model keeps the index of
  the slot, which is what \<open>session->device - g_devices\<close> computes.
\<close>

record media_session =
  device :: "nat option"
  config :: media_session_config
  active :: int

subsection \<open>System calls and the kernel\<close>

datatype buf_type = V4L2_BUF_TYPE_VIDEO_CAPTURE | V4L2_BUF_TYPE_VIDEO_CAPTURE_MPLANE

datatype request =
    VIDIOC_S_FMT buf_type "32 word" "32 word" "32 word" "32 word"
  | VIDIOC_REQBUFS buf_type "32 word"
  | VIDIOC_QUERYBUF buf_type "32 word"
  | VIDIOC_QBUF buf_type "32 word"
  | VIDIOC_DQBUF buf_type
  | VIDIOC_STREAMON buf_type
  | VIDIOC_STREAMOFF buf_type

datatype syscall =
    Sys_open string
  | Sys_close int
  | Sys_ioctl int request
  | Sys_mmap int nat nat
  | Sys_munmap nat nat
  | Sys_select int "(int \<times> int) option"

text \<open>
  The errno values the library tells apart. \<open>EIO\<close> stands for every errno other than
  \<open>EINTR\<close> and \<open>EAGAIN\<close>. A call fails with \<open>EINTR\<close> when a signal is delivered while it
  blocks; the kernel's own answers never are \<open>EINTR\<close>.
\<close>

datatype kerr = EAGAIN | EIO

datatype errno = EINTR | Errno kerr

record pix_format =
  pix_width :: "32 word"
  pix_height :: "32 word"
  pix_pixelformat :: "32 word"
  pix_field :: "32 word"
  pix_sizeimage :: "32 word"

record pix_format_mplane =
  mp_width :: "32 word"
  mp_height :: "32 word"
  mp_pixelformat :: "32 word"
  mp_field :: "32 word"
  mp_num_planes :: "8 word"
  mp_plane_sizeimage :: "nat \<Rightarrow> 32 word"

text \<open>What \<open>VIDIOC_QUERYBUF\<close> and \<open>VIDIOC_DQBUF\<close> write into \<open>struct v4l2_buffer\<close>.\<close>

record v4l2_buffer =
  vb_index :: "32 word"
  vb_bytesused :: "32 word"
  vb_length :: "32 word"
  vb_offset :: "32 word"
  vb_tv_sec :: int
  vb_tv_usec :: int
  vb_plane_length :: "nat \<Rightarrow> 32 word"
  vb_plane_mem_offset :: "nat \<Rightarrow> 32 word"
  vb_plane_bytesused :: "nat \<Rightarrow> 32 word"

record kernel =
  k_interrupt :: "syscall list \<Rightarrow> bool"
  k_open :: "syscall list \<Rightarrow> string \<Rightarrow> nat option"
  k_s_fmt :: "syscall list \<Rightarrow> kerr + pix_format"
  k_s_fmt_mp :: "syscall list \<Rightarrow> kerr + pix_format_mplane"
  k_reqbufs :: "syscall list \<Rightarrow> kerr + 32 word"
  k_querybuf :: "syscall list \<Rightarrow> kerr + v4l2_buffer"
  k_qbuf :: "syscall list \<Rightarrow> kerr + unit"
  k_dqbuf :: "syscall list \<Rightarrow> kerr + v4l2_buffer"
  k_streamon :: "syscall list \<Rightarrow> kerr + unit"
  k_streamoff :: "syscall list \<Rightarrow> kerr + unit"
  k_mmap :: "syscall list \<Rightarrow> nat option"
  k_select :: "syscall list \<Rightarrow> kerr + nat"

subsection \<open>Program state\<close>

text \<open>
  The globals of media.c, the caller's buffer arrays (\<open>heap\<close>), and the process as the
  kernel sees it: the system calls made so far, the live memory mappings as
  (address, length) pairs, and the number of signals still to be delivered to the process.
  \<open>ub\<close> is set when the C program reads or writes outside an array or through a pointer
  to no array: from then on the C standard gives the program no meaning.
  \<open>g_debug_level\<close> only selects log output and is left out.
\<close>

record world =
  g_devices :: "nat \<Rightarrow> device_context"
  g_device_count :: int
  g_initialized :: int
  g_last_error :: media_error
  heap :: "nat \<Rightarrow> media_buffer list option"
  trace :: "syscall list"
  mapped :: "(nat \<times> nat) list"
  signals :: nat
  ub :: bool

definition record_call :: "syscall \<Rightarrow> world \<Rightarrow> world" where
  "record_call c w = w\<lparr>trace := trace w @ [c]\<rparr>"

definition interrupted :: "kernel \<Rightarrow> world \<Rightarrow> bool" where
  "interrupted K w = (0 < signals w \<and> k_interrupt K (trace w))"

definition sys_ioctl ::
  "kernel \<Rightarrow> (syscall list \<Rightarrow> kerr + 'a) \<Rightarrow> world \<Rightarrow> int \<Rightarrow> request \<Rightarrow> (errno + 'a) \<times> world" where
  "sys_ioctl K ans w f req =
     (if interrupted K w
      then (Inl EINTR, record_call (Sys_ioctl f req) (w\<lparr>signals := signals w - 1\<rparr>))
      else (case ans (trace w) of
              Inl e \<Rightarrow> (Inl (Errno e), record_call (Sys_ioctl f req) w)
            | Inr a \<Rightarrow> (Inr a, record_call (Sys_ioctl f req) w)))"

definition sys_select ::
  "kernel \<Rightarrow> world \<Rightarrow> int \<Rightarrow> (int \<times> int) option \<Rightarrow> (errno + nat) \<times> world" where
  "sys_select K w f tv =
     (if interrupted K w
      then (Inl EINTR, record_call (Sys_select f tv) (w\<lparr>signals := signals w - 1\<rparr>))
      else (case k_select K (trace w) of
              Inl e \<Rightarrow> (Inl (Errno e), record_call (Sys_select f tv) w)
            | Inr n \<Rightarrow> (Inr n, record_call (Sys_select f tv) w)))"

definition sys_open :: "kernel \<Rightarrow> world \<Rightarrow> string \<Rightarrow> int \<times> world" where
  "sys_open K w path =
     (case k_open K (trace w) path of
        None \<Rightarrow> (- 1, record_call (Sys_open path) w)
      | Some n \<Rightarrow> (int n, record_call (Sys_open path) w))"

definition sys_close :: "world \<Rightarrow> int \<Rightarrow> world" where
  "sys_close w f = record_call (Sys_close f) w"

definition sys_mmap :: "kernel \<Rightarrow> world \<Rightarrow> nat \<Rightarrow> int \<Rightarrow> nat \<Rightarrow> vptr \<times> world" where
  "sys_mmap K w len f off =
     (case k_mmap K (trace w) of
        None \<Rightarrow> (MAP_FAILED, record_call (Sys_mmap f len off) w)
      | Some a \<Rightarrow> (Addr a, record_call (Sys_mmap f len off) (w\<lparr>mapped := mapped w @ [(a, len)]\<rparr>)))"

definition sys_munmap :: "world \<Rightarrow> nat \<Rightarrow> nat \<Rightarrow> world" where
  "sys_munmap w a len = record_call (Sys_munmap a len) (w\<lparr>mapped := remove1 (a, len) (mapped w)\<rparr>)"

section \<open>Internal utility functions\<close>

text \<open>
  \<open>xioctl\<close> repeats the call while it fails with \<open>EINTR\<close>. Each interruption consumes one
  of the finitely many signals pending for the process, which is the measure of the loop.
\<close>

function xioctl ::
  "kernel \<Rightarrow> (syscall list \<Rightarrow> kerr + 'a) \<Rightarrow> world \<Rightarrow> int \<Rightarrow> request \<Rightarrow> (kerr + 'a) \<times> world" where
  "xioctl K ans w f req =
     (case sys_ioctl K ans w f req of
        (Inl EINTR, w') \<Rightarrow> xioctl K ans w' f req
      | (Inl (Errno e), w') \<Rightarrow> (Inl e, w')
      | (Inr a, w') \<Rightarrow> (Inr a, w'))"
  by pat_completeness auto
termination
  by (relation "measure (\<lambda>(K, ans, w, f, req). signals w)")
     (auto simp: interrupted_def sys_ioctl_def record_call_def split: if_splits sum.splits)

declare xioctl.simps [simp del]

definition set_last_error :: "media_error \<Rightarrow> world \<Rightarrow> world" where
  "set_last_error e w = w\<lparr>g_last_error := e\<rparr>"

definition find_device :: "world \<Rightarrow> int \<Rightarrow> nat option \<times> world" where
  "find_device w handle =
     (if handle < 0 \<or> handle \<ge> g_device_count w
      then (None, set_last_error MEDIA_ERROR_INVALID_PARAM w)
      else if fd (g_devices w (nat handle)) < 0
      then (None, set_last_error MEDIA_ERROR_DEVICE_NOT_FOUND w)
      else (Some (nat handle), w))"

definition dev_update :: "nat \<Rightarrow> (device_context \<Rightarrow> device_context) \<Rightarrow> world \<Rightarrow> world" where
  "dev_update d f w = w\<lparr>g_devices := (g_devices w)(d := f (g_devices w d))\<rparr>"

section \<open>Library and device management\<close>

definition zero_format :: media_format where
  "zero_format = \<lparr>width = 0, height = 0, pixelformat = 0, field = 0, num_planes = 0,
     plane_size = (\<lambda>i. 0)\<rparr>"

text \<open>A slot of \<open>g_devices\<close> after \<open>memset\<close> to zero.\<close>

definition zero_device :: device_context where
  "zero_device = \<lparr>fd = 0, device_path = [], format = zero_format, buffers = None,
     buffer_count = 0, streaming = 0, use_multiplanar = 0\<rparr>"

definition libmedia_init :: "world \<Rightarrow> int \<times> world" where
  "libmedia_init w =
     (if g_initialized w \<noteq> 0 then (0, w)
      else (0, w\<lparr>g_devices := (\<lambda>i. if int i < MAX_DEVICES then zero_device\<lparr>fd := - 1\<rparr>
                                      else g_devices w i),
                 g_device_count := 0,
                 g_last_error := MEDIA_ERROR_NONE,
                 g_initialized := 1\<rparr>))"

definition libmedia_open_device :: "kernel \<Rightarrow> world \<Rightarrow> string option \<Rightarrow> int \<times> world" where
  "libmedia_open_device K w path_arg =
     (let w0 = (if g_initialized w = 0 then snd (libmedia_init w) else w) in
      (case path_arg of
        None \<Rightarrow> (- 1, set_last_error MEDIA_ERROR_INVALID_PARAM w0)
      | Some path \<Rightarrow>
          if g_device_count w0 \<ge> MAX_DEVICES
          then (- 1, set_last_error MEDIA_ERROR_OUT_OF_MEMORY w0)
          else (case sys_open K w0 path of (f, w1) \<Rightarrow>
            if f = - 1 then (- 1, set_last_error MEDIA_ERROR_DEVICE_NOT_FOUND w1)
            else (g_device_count w1,
                  (dev_update (nat (g_device_count w1))
                     (\<lambda>d. d\<lparr>fd := f, device_path := take 255 path, buffer_count := 0,
                            buffers := None, streaming := 0, use_multiplanar := 0\<rparr>) w1)
                  \<lparr>g_device_count := g_device_count w1 + 1\<rparr>))))"

section \<open>Format configuration\<close>

definition libmedia_set_format ::
  "kernel \<Rightarrow> world \<Rightarrow> int \<Rightarrow> media_format option \<Rightarrow> int \<times> media_format option \<times> world" where
  "libmedia_set_format K w handle fmt_arg =
     (case find_device w handle of (dev, w0) \<Rightarrow>
     (case (dev, fmt_arg) of
        (Some d, Some fmt) \<Rightarrow>
          (case xioctl K (k_s_fmt K) w0 (fd (g_devices w0 d))
                  (VIDIOC_S_FMT V4L2_BUF_TYPE_VIDEO_CAPTURE
                     (width fmt) (height fmt) (pixelformat fmt) (field fmt)) of
             (Inl e, w1) \<Rightarrow> (- 1, fmt_arg, set_last_error MEDIA_ERROR_FORMAT_ERROR w1)
           | (Inr r, w1) \<Rightarrow>
               (let fmt' = fmt\<lparr>width := pix_width r, height := pix_height r,
                               pixelformat := pix_pixelformat r, field := pix_field r,
                               num_planes := 1,
                               plane_size := (plane_size fmt)(0 := pix_sizeimage r)\<rparr>
                in (0, Some fmt',
                    dev_update d (\<lambda>c. c\<lparr>format := fmt', use_multiplanar := 0\<rparr>) w1)))
      | _ \<Rightarrow> (- 1, fmt_arg, set_last_error MEDIA_ERROR_INVALID_PARAM w0)))"

text \<open>
  The loop \<open>for (i = 0; i < format->num_planes; i++) format->plane_size[i] = ...\<close> of
  \<open>libmedia_set_format_mp\<close>: \<open>i\<close> is the index, the last argument the iterations left.
  Both arrays have \<open>VIDEO_MAX_PLANES\<close> entries; the flag records an access beyond them.
\<close>

fun copy_plane_sizes ::
  "pix_format_mplane \<Rightarrow> media_format \<times> bool \<Rightarrow> nat \<Rightarrow> nat \<Rightarrow> media_format \<times> bool" where
  "copy_plane_sizes r (fmt, u) i 0 = (fmt, u)"
| "copy_plane_sizes r (fmt, u) i (Suc k) =
     copy_plane_sizes r
       (if i < VIDEO_MAX_PLANES
        then (fmt\<lparr>plane_size := (plane_size fmt)(i := mp_plane_sizeimage r i)\<rparr>, u)
        else (fmt, True))
       (Suc i) k"

definition libmedia_set_format_mp ::
  "kernel \<Rightarrow> world \<Rightarrow> int \<Rightarrow> media_format option \<Rightarrow> int \<times> media_format option \<times> world" where
  "libmedia_set_format_mp K w handle fmt_arg =
     (case find_device w handle of (dev, w0) \<Rightarrow>
     (case (dev, fmt_arg) of
        (Some d, Some fmt) \<Rightarrow>
          (case xioctl K (k_s_fmt_mp K) w0 (fd (g_devices w0 d))
                  (VIDIOC_S_FMT V4L2_BUF_TYPE_VIDEO_CAPTURE_MPLANE
                     (width fmt) (height fmt) (pixelformat fmt) (field fmt)) of
             (Inl e, w1) \<Rightarrow> (- 1, fmt_arg, set_last_error MEDIA_ERROR_FORMAT_ERROR w1)
           | (Inr r, w1) \<Rightarrow>
               (case copy_plane_sizes r
                       (fmt\<lparr>width := mp_width r, height := mp_height r,
                             pixelformat := mp_pixelformat r, field := mp_field r,
                             num_planes := ucast (mp_num_planes r)\<rparr>, ub w1)
                       0 (unat (mp_num_planes r)) of
                  (fmt', u) \<Rightarrow>
                    (0, Some fmt',
                     dev_update d (\<lambda>c. c\<lparr>format := fmt', use_multiplanar := 1\<rparr>)
                       (w1\<lparr>ub := u\<rparr>))))
      | _ \<Rightarrow> (- 1, fmt_arg, set_last_error MEDIA_ERROR_INVALID_PARAM w0)))"

definition libmedia_get_format ::
  "world \<Rightarrow> int \<Rightarrow> media_format option \<Rightarrow> int \<times> media_format option \<times> world" where
  "libmedia_get_format w handle fmt_arg =
     (case find_device w handle of (dev, w0) \<Rightarrow>
      (case (dev, fmt_arg) of
         (Some d, Some fmt) \<Rightarrow> (0, Some (format (g_devices w0 d)), w0)
       | _ \<Rightarrow> (- 1, fmt_arg, set_last_error MEDIA_ERROR_INVALID_PARAM w0)))"

definition libmedia_get_format_mp ::
  "world \<Rightarrow> int \<Rightarrow> media_format option \<Rightarrow> int \<times> media_format option \<times> world" where
  "libmedia_get_format_mp w handle fmt_arg = libmedia_get_format w handle fmt_arg"

section \<open>Exchange queue\<close>

definition libmedia_queue_buffer :: "kernel \<Rightarrow> world \<Rightarrow> int \<Rightarrow> int \<Rightarrow> int \<times> world" where
  "libmedia_queue_buffer K w handle idx =
     (case find_device w handle of
        (None, w0) \<Rightarrow> (- 1, set_last_error MEDIA_ERROR_INVALID_PARAM w0)
      | (Some d, w0) \<Rightarrow>
          if idx < 0 \<or> idx \<ge> buffer_count (g_devices w0 d)
          then (- 1, set_last_error MEDIA_ERROR_INVALID_PARAM w0)
          else (case xioctl K (k_qbuf K) w0 (fd (g_devices w0 d))
                       (VIDIOC_QBUF V4L2_BUF_TYPE_VIDEO_CAPTURE (word_of_int idx)) of
                  (Inl e, w1) \<Rightarrow> (- 1, set_last_error MEDIA_ERROR_BUFFER_ERROR w1)
                | (Inr u, w1) \<Rightarrow> (0, w1)))"

definition libmedia_queue_buffer_mp :: "kernel \<Rightarrow> world \<Rightarrow> int \<Rightarrow> int \<Rightarrow> int \<times> world" where
  "libmedia_queue_buffer_mp K w handle idx =
     (case find_device w handle of
        (None, w0) \<Rightarrow> (- 1, set_last_error MEDIA_ERROR_INVALID_PARAM w0)
      | (Some d, w0) \<Rightarrow>
          if idx < 0 \<or> idx \<ge> buffer_count (g_devices w0 d)
          then (- 1, set_last_error MEDIA_ERROR_INVALID_PARAM w0)
          else (case xioctl K (k_qbuf K) w0 (fd (g_devices w0 d))
                       (VIDIOC_QBUF V4L2_BUF_TYPE_VIDEO_CAPTURE_MPLANE (word_of_int idx)) of
                  (Inl e, w1) \<Rightarrow> (- 1, set_last_error MEDIA_ERROR_BUFFER_ERROR w1)
                | (Inr u, w1) \<Rightarrow> (0, w1)))"

text \<open>
  Reading \<open>dev->buffers[i]\<close>: \<open>None\<close> when the pointer is null, points to no array, or
  \<open>i\<close> is beyond the array, which in C is undefined behaviour.
\<close>

definition pool_read :: "world \<Rightarrow> nat option \<Rightarrow> nat \<Rightarrow> media_buffer option" where
  "pool_read w p i =
     (case p of
        None \<Rightarrow> None
      | Some a \<Rightarrow>
          (case heap w a of
             None \<Rightarrow> None
           | Some arr \<Rightarrow> if i < length arr then Some (arr ! i) else None))"

text \<open>
  \<open>(uint64_t)tv_sec * 1000000000ULL + (uint64_t)tv_usec * 1000ULL\<close>, in 64-bit
  arithmetic that wraps.
\<close>

definition timestamp_ns :: "v4l2_buffer \<Rightarrow> 64 word" where
  "timestamp_ns vb = word_of_int (vb_tv_sec vb) * 1000000000 + word_of_int (vb_tv_usec vb) * 1000"

definition libmedia_dequeue_buffer ::
  "kernel \<Rightarrow> world \<Rightarrow> int \<Rightarrow> media_buffer option \<Rightarrow> int \<times> media_buffer option \<times> world" where
  "libmedia_dequeue_buffer K w handle buf_arg =
     (case find_device w handle of (dev, w0) \<Rightarrow>
     (case (dev, buf_arg) of
        (Some d, Some b) \<Rightarrow>
          (case xioctl K (k_dqbuf K) w0 (fd (g_devices w0 d))
                  (VIDIOC_DQBUF V4L2_BUF_TYPE_VIDEO_CAPTURE) of
             (Inl e, w1) \<Rightarrow>
               (- 1, buf_arg,
                set_last_error (if e = EAGAIN then MEDIA_ERROR_TIMEOUT
                                else MEDIA_ERROR_BUFFER_ERROR) w1)
           | (Inr vb, w1) \<Rightarrow>
               if vb_index vb \<ge> (word_of_int (buffer_count (g_devices w1 d)) :: 32 word)
               then (- 1, buf_arg, set_last_error MEDIA_ERROR_BUFFER_ERROR w1)
               else (case pool_read w1 (buffers (g_devices w1 d)) (unat (vb_index vb)) of
                       None \<Rightarrow> (0, buf_arg, w1\<lparr>ub := True\<rparr>)
                     | Some pb \<Rightarrow>
                         (0, Some (pb\<lparr>bytes_used := vb_bytesused vb,
                                      timestamp := timestamp_ns vb\<rparr>), w1)))
      | _ \<Rightarrow> (- 1, buf_arg, set_last_error MEDIA_ERROR_INVALID_PARAM w0)))"

definition libmedia_dequeue_buffer_mp ::
  "kernel \<Rightarrow> world \<Rightarrow> int \<Rightarrow> media_buffer option \<Rightarrow> int \<times> media_buffer option \<times> world" where
  "libmedia_dequeue_buffer_mp K w handle buf_arg =
     (case find_device w handle of (dev, w0) \<Rightarrow>
     (case (dev, buf_arg) of
        (Some d, Some b) \<Rightarrow>
          (case xioctl K (k_dqbuf K) w0 (fd (g_devices w0 d))
                  (VIDIOC_DQBUF V4L2_BUF_TYPE_VIDEO_CAPTURE_MPLANE) of
             (Inl e, w1) \<Rightarrow>
               (- 1, buf_arg,
                set_last_error (if e = EAGAIN then MEDIA_ERROR_TIMEOUT
                                else MEDIA_ERROR_BUFFER_ERROR) w1)
           | (Inr vb, w1) \<Rightarrow>
               if vb_index vb \<ge> (word_of_int (buffer_count (g_devices w1 d)) :: 32 word)
               then (- 1, buf_arg, set_last_error MEDIA_ERROR_BUFFER_ERROR w1)
               else (case pool_read w1 (buffers (g_devices w1 d)) (unat (vb_index vb)) of
                       None \<Rightarrow> (0, buf_arg, w1\<lparr>ub := True\<rparr>)
                     | Some pb \<Rightarrow>
                         (0, Some (pb\<lparr>bytes_used := vb_plane_bytesused vb 0,
                                      timestamp := timestamp_ns vb\<rparr>), w1)))
      | _ \<Rightarrow> (- 1, buf_arg, set_last_error MEDIA_ERROR_INVALID_PARAM w0)))"

section \<open>Streaming control\<close>

definition libmedia_start_streaming :: "kernel \<Rightarrow> world \<Rightarrow> int \<Rightarrow> int \<times> world" where
  "libmedia_start_streaming K w handle =
     (case find_device w handle of
        (None, w0) \<Rightarrow> (- 1, w0)
      | (Some d, w0) \<Rightarrow>
          (case xioctl K (k_streamon K) w0 (fd (g_devices w0 d))
                  (VIDIOC_STREAMON V4L2_BUF_TYPE_VIDEO_CAPTURE) of
             (Inl e, w1) \<Rightarrow> (- 1, set_last_error MEDIA_ERROR_STREAMING_ERROR w1)
           | (Inr u, w1) \<Rightarrow> (0, dev_update d (\<lambda>c. c\<lparr>streaming := 1\<rparr>) w1)))"

definition libmedia_start_streaming_mp :: "kernel \<Rightarrow> world \<Rightarrow> int \<Rightarrow> int \<times> world" where
  "libmedia_start_streaming_mp K w handle =
     (case find_device w handle of
        (None, w0) \<Rightarrow> (- 1, w0)
      | (Some d, w0) \<Rightarrow>
          (case xioctl K (k_streamon K) w0 (fd (g_devices w0 d))
                  (VIDIOC_STREAMON V4L2_BUF_TYPE_VIDEO_CAPTURE_MPLANE) of
             (Inl e, w1) \<Rightarrow> (- 1, set_last_error MEDIA_ERROR_STREAMING_ERROR w1)
           | (Inr u, w1) \<Rightarrow> (0, dev_update d (\<lambda>c. c\<lparr>streaming := 1\<rparr>) w1)))"

definition libmedia_stop_streaming :: "kernel \<Rightarrow> world \<Rightarrow> int \<Rightarrow> int \<times> world" where
  "libmedia_stop_streaming K w handle =
     (case find_device w handle of
        (None, w0) \<Rightarrow> (- 1, w0)
      | (Some d, w0) \<Rightarrow>
          (case xioctl K (k_streamoff K) w0 (fd (g_devices w0 d))
                  (VIDIOC_STREAMOFF V4L2_BUF_TYPE_VIDEO_CAPTURE) of
             (Inl e, w1) \<Rightarrow> (- 1, set_last_error MEDIA_ERROR_STREAMING_ERROR w1)
           | (Inr u, w1) \<Rightarrow> (0, dev_update d (\<lambda>c. c\<lparr>streaming := 0\<rparr>) w1)))"

definition libmedia_stop_streaming_mp :: "kernel \<Rightarrow> world \<Rightarrow> int \<Rightarrow> int \<times> world" where
  "libmedia_stop_streaming_mp K w handle =
     (case find_device w handle of
        (None, w0) \<Rightarrow> (- 1, w0)
      | (Some d, w0) \<Rightarrow>
          (case xioctl K (k_streamoff K) w0 (fd (g_devices w0 d))
                  (VIDIOC_STREAMOFF V4L2_BUF_TYPE_VIDEO_CAPTURE_MPLANE) of
             (Inl e, w1) \<Rightarrow> (- 1, set_last_error MEDIA_ERROR_STREAMING_ERROR w1)
           | (Inr u, w1) \<Rightarrow> (0, dev_update d (\<lambda>c. c\<lparr>streaming := 0\<rparr>) w1)))"

section \<open>Frame capture interface\<close>

definition libmedia_wait_for_frame :: "kernel \<Rightarrow> world \<Rightarrow> int \<Rightarrow> int \<Rightarrow> int \<times> world" where
  "libmedia_wait_for_frame K w handle timeout_ms =
     (case find_device w handle of
        (None, w0) \<Rightarrow> (- 1, w0)
      | (Some d, w0) \<Rightarrow>
          (let ptv = (if timeout_ms \<ge> 0
                      then Some (timeout_ms div 1000, (timeout_ms mod 1000) * 1000)
                      else None)
           in case sys_select K w0 (fd (g_devices w0 d)) ptv of
                (Inl EINTR, w1) \<Rightarrow> (0, set_last_error MEDIA_ERROR_TIMEOUT w1)
              | (Inl (Errno e), w1) \<Rightarrow> (- 1, set_last_error MEDIA_ERROR_IOCTL_FAILED w1)
              | (Inr n, w1) \<Rightarrow>
                  if n = 0 then (0, set_last_error MEDIA_ERROR_TIMEOUT w1) else (1, w1)))"

text \<open>
  The local \<open>media_buffer_t buffer\<close> of the capture functions is not initialised; the
  dequeue functions overwrite it as a whole before any field is read.
\<close>

definition uninit_buffer :: media_buffer where
  "uninit_buffer = \<lparr>start = (\<lambda>p. NULL), plane_length = (\<lambda>p. 0), buf_num_planes = 0,
     index = 0, bytes_used = 0, timestamp = 0\<rparr>"

definition fill_frame :: "media_frame \<Rightarrow> media_buffer \<Rightarrow> media_format \<Rightarrow> media_frame" where
  "fill_frame fr b fmt =
     fr\<lparr>frame_data := start b 0, frame_size := bytes_used b, frame_width := width fmt,
        frame_height := height fmt, frame_pixelformat := pixelformat fmt,
        frame_timestamp := timestamp b, frame_id := word_of_int (index b)\<rparr>"

definition libmedia_capture_frame ::
  "kernel \<Rightarrow> world \<Rightarrow> int \<Rightarrow> media_frame option \<Rightarrow> int \<Rightarrow> int \<times> media_frame option \<times> world" where
  "libmedia_capture_frame K w handle frame_arg timeout_ms =
     (case find_device w handle of (dev, w0) \<Rightarrow>
     (case (dev, frame_arg) of
        (Some d, Some fr) \<Rightarrow>
          (case (if timeout_ms \<noteq> 0 then libmedia_wait_for_frame K w0 handle timeout_ms
                 else (1, w0)) of
             (wait_result, w1) \<Rightarrow>
               if wait_result \<le> 0 then (wait_result, frame_arg, w1)
               else (case libmedia_dequeue_buffer K w1 handle (Some uninit_buffer) of
                       (result, Some b, w2) \<Rightarrow>
                         if result < 0 then (result, frame_arg, w2)
                         else (0, Some (fill_frame fr b (format (g_devices w2 d))), w2)
                     | (result, None, w2) \<Rightarrow> (result, frame_arg, w2)))
      | _ \<Rightarrow> (- 1, frame_arg, set_last_error MEDIA_ERROR_INVALID_PARAM w0)))"

definition libmedia_capture_frame_mp ::
  "kernel \<Rightarrow> world \<Rightarrow> int \<Rightarrow> media_frame option \<Rightarrow> int \<Rightarrow> int \<times> media_frame option \<times> world" where
  "libmedia_capture_frame_mp K w handle frame_arg timeout_ms =
     (case find_device w handle of (dev, w0) \<Rightarrow>
     (case (dev, frame_arg) of
        (Some d, Some fr) \<Rightarrow>
          (case (if timeout_ms \<noteq> 0 then libmedia_wait_for_frame K w0 handle timeout_ms
                 else (1, w0)) of
             (wait_result, w1) \<Rightarrow>
               if wait_result \<le> 0 then (wait_result, frame_arg, w1)
               else (case libmedia_dequeue_buffer_mp K w1 handle (Some uninit_buffer) of
                       (result, Some b, w2) \<Rightarrow>
                         if result < 0 then (result, frame_arg, w2)
                         else (0, Some (fill_frame fr b (format (g_devices w2 d))), w2)
                     | (result, None, w2) \<Rightarrow> (result, frame_arg, w2)))
      | _ \<Rightarrow> (- 1, frame_arg, set_last_error MEDIA_ERROR_INVALID_PARAM w0)))"

definition libmedia_release_frame ::
  "kernel \<Rightarrow> world \<Rightarrow> int \<Rightarrow> media_frame option \<Rightarrow> int \<times> world" where
  "libmedia_release_frame K w handle frame_arg =
     (case find_device w handle of (dev, w0) \<Rightarrow>
     (case (dev, frame_arg) of
        (Some d, Some fr) \<Rightarrow>
          if use_multiplanar (g_devices w0 d) \<noteq> 0
          then libmedia_queue_buffer_mp K w0 handle (sint (frame_id fr))
          else libmedia_queue_buffer K w0 handle (sint (frame_id fr))
      | _ \<Rightarrow> (- 1, set_last_error MEDIA_ERROR_INVALID_PARAM w0)))"

section \<open>High-level session management\<close>

text \<open>
  The queueing loop of \<open>libmedia_start_session\<close>; it stops at the first buffer the
  hardware refuses. \<open>i\<close> is the index, the last argument the iterations left.
\<close>

fun queue_all :: "kernel \<Rightarrow> world \<Rightarrow> int \<Rightarrow> int \<Rightarrow> nat \<Rightarrow> nat \<Rightarrow> int \<times> world" where
  "queue_all K w handle mp i 0 = (0, w)"
| "queue_all K w handle mp i (Suc k) =
     (case (if mp \<noteq> 0 then libmedia_queue_buffer_mp K w handle (int i)
            else libmedia_queue_buffer K w handle (int i)) of
        (result, w1) \<Rightarrow>
          if result < 0 then (result, w1) else queue_all K w1 handle mp (Suc i) k)"

definition libmedia_start_session ::
  "kernel \<Rightarrow> world \<Rightarrow> media_session option \<Rightarrow> int \<times> media_session option \<times> world" where
  "libmedia_start_session K w session =
     (case session of
        None \<Rightarrow> (- 1, session, set_last_error MEDIA_ERROR_INVALID_PARAM w)
      | Some s \<Rightarrow>
          (case device s of
             None \<Rightarrow> (- 1, session, set_last_error MEDIA_ERROR_INVALID_PARAM w)
           | Some d \<Rightarrow>
               (case queue_all K w (int d) (cfg_use_multiplanar (config s)) 0
                       (nat (buffer_count (g_devices w d))) of
                  (qr, w1) \<Rightarrow>
                    if qr < 0 then (qr, session, w1)
                    else (case (if cfg_use_multiplanar (config s) \<noteq> 0
                                then libmedia_start_streaming_mp K w1 (int d)
                                else libmedia_start_streaming K w1 (int d)) of
                            (result, w2) \<Rightarrow>
                              if result < 0 then (result, session, w2)
                              else (0, Some (s\<lparr>active := 1\<rparr>), w2)))))"

definition libmedia_stop_session ::
  "kernel \<Rightarrow> world \<Rightarrow> media_session option \<Rightarrow> int \<times> media_session option \<times> world" where
  "libmedia_stop_session K w session =
     (case session of
        None \<Rightarrow> (- 1, session, set_last_error MEDIA_ERROR_INVALID_PARAM w)
      | Some s \<Rightarrow>
          (case device s of
             None \<Rightarrow> (- 1, session, set_last_error MEDIA_ERROR_INVALID_PARAM w)
           | Some d \<Rightarrow>
               (case (if cfg_use_multiplanar (config s) \<noteq> 0
                      then libmedia_stop_streaming_mp K w (int d)
                      else libmedia_stop_streaming K w (int d)) of
                  (result, w1) \<Rightarrow> (result, Some (s\<lparr>active := 0\<rparr>), w1))))"

definition libmedia_session_capture_frame ::
  "kernel \<Rightarrow> world \<Rightarrow> media_session option \<Rightarrow> media_frame option \<Rightarrow> int
     \<Rightarrow> int \<times> media_frame option \<times> world" where
  "libmedia_session_capture_frame K w session frame_arg timeout_ms =
     (case (session, frame_arg) of
        (Some s, Some fr) \<Rightarrow>
          (case device s of
             None \<Rightarrow> (- 1, frame_arg, set_last_error MEDIA_ERROR_INVALID_PARAM w)
           | Some d \<Rightarrow>
               if active s = 0
               then (- 1, frame_arg, set_last_error MEDIA_ERROR_STREAMING_ERROR w)
               else if cfg_use_multiplanar (config s) \<noteq> 0
               then libmedia_capture_frame_mp K w (int d) frame_arg timeout_ms
               else libmedia_capture_frame K w (int d) frame_arg timeout_ms)
      | _ \<Rightarrow> (- 1, frame_arg, set_last_error MEDIA_ERROR_INVALID_PARAM w))"

definition libmedia_session_release_frame ::
  "kernel \<Rightarrow> world \<Rightarrow> media_session option \<Rightarrow> media_frame option \<Rightarrow> int \<times> world" where
  "libmedia_session_release_frame K w session frame_arg =
     (case (session, frame_arg) of
        (Some s, Some fr) \<Rightarrow>
          (case device s of
             None \<Rightarrow> (- 1, set_last_error MEDIA_ERROR_INVALID_PARAM w)
           | Some d \<Rightarrow> libmedia_release_frame K w (int d) frame_arg)
      | _ \<Rightarrow> (- 1, set_last_error MEDIA_ERROR_INVALID_PARAM w))"

section \<open>Buffer management\<close>

text \<open>
  Writing \<open>buffers[i] = b\<close> into the caller's array at address \<open>bp\<close>. Outside the array,
  or with no array at \<open>bp\<close>, the write is undefined behaviour.
\<close>

definition pool_write :: "world \<Rightarrow> nat \<Rightarrow> nat \<Rightarrow> (media_buffer \<Rightarrow> media_buffer) \<Rightarrow> world" where
  "pool_write w bp i f =
     (case heap w bp of
        None \<Rightarrow> w\<lparr>ub := True\<rparr>
      | Some arr \<Rightarrow>
          if i < length arr then w\<lparr>heap := (heap w)(bp \<mapsto> arr[i := f (arr ! i)])\<rparr>
          else w\<lparr>ub := True\<rparr>)"

text \<open>
  The mapping loop of \<open>libmedia_request_buffers\<close>, \<open>for (i = 0; i < reqbuf.count; i++)\<close>:
  \<open>i\<close> is the index, the last argument the iterations left. The result is \<open>False\<close> when
  the loop was left by \<open>return -1\<close>.
\<close>

fun map_buffers :: "kernel \<Rightarrow> world \<Rightarrow> int \<Rightarrow> nat \<Rightarrow> nat \<Rightarrow> nat \<Rightarrow> bool \<times> world" where
  "map_buffers K w f bp i 0 = (True, w)"
| "map_buffers K w f bp i (Suc k) =
     (case xioctl K (k_querybuf K) w f
             (VIDIOC_QUERYBUF V4L2_BUF_TYPE_VIDEO_CAPTURE (of_nat i)) of
        (Inl e, w1) \<Rightarrow> (False, set_last_error MEDIA_ERROR_BUFFER_ERROR w1)
      | (Inr vb, w1) \<Rightarrow>
          (case sys_mmap K w1 (unat (vb_length vb)) f (unat (vb_offset vb)) of
             (ptr, w2) \<Rightarrow>
               (let w3 = pool_write w2 bp i (\<lambda>b. b\<lparr>start := (start b)(0 := ptr)\<rparr>) in
                if ptr = MAP_FAILED
                then (False, set_last_error MEDIA_ERROR_OUT_OF_MEMORY w3)
                else map_buffers K
                       (pool_write w3 bp i
                          (\<lambda>b. b\<lparr>plane_length := (plane_length b)(0 := unat (vb_length vb)),
                                 buf_num_planes := 1,
                                 index := sint (of_nat i :: 32 word)\<rparr>))
                       f bp (Suc i) k)))"

definition libmedia_request_buffers ::
  "kernel \<Rightarrow> world \<Rightarrow> int \<Rightarrow> int \<Rightarrow> nat option \<Rightarrow> int \<times> world" where
  "libmedia_request_buffers K w handle count' bufs =
     (case find_device w handle of (dev, w0) \<Rightarrow>
     (case (dev, bufs) of
        (Some d, Some bp) \<Rightarrow>
          if count' \<le> 0 then (- 1, set_last_error MEDIA_ERROR_INVALID_PARAM w0)
          else
          (case xioctl K (k_reqbufs K) w0 (fd (g_devices w0 d))
                  (VIDIOC_REQBUFS V4L2_BUF_TYPE_VIDEO_CAPTURE (word_of_int count')) of
             (Inl e, w1) \<Rightarrow> (- 1, set_last_error MEDIA_ERROR_BUFFER_ERROR w1)
           | (Inr granted, w1) \<Rightarrow>
               (case map_buffers K w1 (fd (g_devices w1 d)) bp 0 (unat granted) of
                  (False, w2) \<Rightarrow> (- 1, w2)
                | (True, w2) \<Rightarrow>
                    (sint granted,
                     dev_update d (\<lambda>c. c\<lparr>buffers := Some bp, buffer_count := sint granted\<rparr>) w2)))
      | _ \<Rightarrow> (- 1, set_last_error MEDIA_ERROR_INVALID_PARAM w0)))"

text \<open>
  The plane loop of \<open>libmedia_request_buffers_mp\<close>, \<open>for (p = 0; p < buf.length; p++)\<close>,
  for buffer \<open>i\<close>. \<open>buffers[i].start\<close>, \<open>buffers[i].length\<close> and \<open>planes\<close> have
  \<open>VIDEO_MAX_PLANES\<close> entries.
\<close>

fun map_planes ::
  "kernel \<Rightarrow> world \<Rightarrow> int \<Rightarrow> nat \<Rightarrow> nat \<Rightarrow> v4l2_buffer \<Rightarrow> nat \<Rightarrow> nat \<Rightarrow> bool \<times> world" where
  "map_planes K w f bp i vb p 0 = (True, w)"
| "map_planes K w f bp i vb p (Suc k) =
     (if p < VIDEO_MAX_PLANES
      then (case sys_mmap K w (unat (vb_plane_length vb p)) f (unat (vb_plane_mem_offset vb p)) of
              (ptr, w1) \<Rightarrow>
                (let w2 = pool_write w1 bp i (\<lambda>b. b\<lparr>start := (start b)(p := ptr)\<rparr>) in
                 if ptr = MAP_FAILED
                 then (False, set_last_error MEDIA_ERROR_OUT_OF_MEMORY w2)
                 else map_planes K
                        (pool_write w2 bp i
                           (\<lambda>b. b\<lparr>plane_length :=
                                    (plane_length b)(p := unat (vb_plane_length vb p))\<rparr>))
                        f bp i vb (Suc p) k))
      else (False, w\<lparr>ub := True\<rparr>))"

fun map_buffers_mp :: "kernel \<Rightarrow> world \<Rightarrow> int \<Rightarrow> nat \<Rightarrow> nat \<Rightarrow> nat \<Rightarrow> bool \<times> world" where
  "map_buffers_mp K w f bp i 0 = (True, w)"
| "map_buffers_mp K w f bp i (Suc k) =
     (case xioctl K (k_querybuf K) w f
             (VIDIOC_QUERYBUF V4L2_BUF_TYPE_VIDEO_CAPTURE_MPLANE (of_nat i)) of
        (Inl e, w1) \<Rightarrow> (False, set_last_error MEDIA_ERROR_BUFFER_ERROR w1)
      | (Inr vb, w1) \<Rightarrow>
          (case map_planes K
                  (pool_write w1 bp i
                     (\<lambda>b. b\<lparr>buf_num_planes := sint (vb_length vb),
                            index := sint (of_nat i :: 32 word)\<rparr>))
                  f bp i vb 0 (unat (vb_length vb)) of
             (False, w2) \<Rightarrow> (False, w2)
           | (True, w2) \<Rightarrow> map_buffers_mp K w2 f bp (Suc i) k))"

definition libmedia_request_buffers_mp ::
  "kernel \<Rightarrow> world \<Rightarrow> int \<Rightarrow> int \<Rightarrow> nat option \<Rightarrow> int \<times> world" where
  "libmedia_request_buffers_mp K w handle count' bufs =
     (case find_device w handle of (dev, w0) \<Rightarrow>
     (case (dev, bufs) of
        (Some d, Some bp) \<Rightarrow>
          if count' \<le> 0 then (- 1, set_last_error MEDIA_ERROR_INVALID_PARAM w0)
          else
          (case xioctl K (k_reqbufs K) w0 (fd (g_devices w0 d))
                  (VIDIOC_REQBUFS V4L2_BUF_TYPE_VIDEO_CAPTURE_MPLANE (word_of_int count')) of
             (Inl e, w1) \<Rightarrow> (- 1, set_last_error MEDIA_ERROR_BUFFER_ERROR w1)
           | (Inr granted, w1) \<Rightarrow>
               (case map_buffers_mp K w1 (fd (g_devices w1 d)) bp 0 (unat granted) of
                  (False, w2) \<Rightarrow> (- 1, w2)
                | (True, w2) \<Rightarrow>
                    (sint granted,
                     dev_update d (\<lambda>c. c\<lparr>buffers := Some bp, buffer_count := sint granted\<rparr>) w2)))
      | _ \<Rightarrow> (- 1, set_last_error MEDIA_ERROR_INVALID_PARAM w0)))"

text \<open>
  The body of the inner loop of \<open>libmedia_free_buffers\<close> for plane \<open>p\<close> of buffer \<open>i\<close>:
  a plane that is neither \<open>MAP_FAILED\<close> nor null is unmapped and its pointer set to null.
\<close>

definition unmap_plane :: "world \<Rightarrow> nat \<Rightarrow> nat \<Rightarrow> nat \<Rightarrow> world" where
  "unmap_plane w bp i p =
     (case pool_read w (Some bp) i of
        None \<Rightarrow> w\<lparr>ub := True\<rparr>
      | Some b \<Rightarrow>
          if p < VIDEO_MAX_PLANES
          then (case start b p of
                  MAP_FAILED \<Rightarrow> w
                | NULL \<Rightarrow> w
                | Addr a \<Rightarrow>
                    pool_write (sys_munmap w a (plane_length b p)) bp i
                      (\<lambda>b. b\<lparr>start := (start b)(p := NULL)\<rparr>))
          else w\<lparr>ub := True\<rparr>)"

fun free_planes :: "world \<Rightarrow> nat \<Rightarrow> nat \<Rightarrow> nat \<Rightarrow> nat \<Rightarrow> world" where
  "free_planes w bp i p 0 = w"
| "free_planes w bp i p (Suc k) = free_planes (unmap_plane w bp i p) bp i (Suc p) k"

text \<open>
  The outer loop, \<open>for (i = 0; i < count; i++)\<close>. The bound of the inner loop,
  \<open>buffers[i].num_planes\<close>, is read from the array; the inner loop does not change it.
\<close>

fun free_all :: "world \<Rightarrow> nat \<Rightarrow> nat \<Rightarrow> nat \<Rightarrow> world" where
  "free_all w bp i 0 = w"
| "free_all w bp i (Suc k) =
     (case pool_read w (Some bp) i of
        None \<Rightarrow> free_all (w\<lparr>ub := True\<rparr>) bp (Suc i) k
      | Some b \<Rightarrow> free_all (free_planes w bp i 0 (nat (buf_num_planes b))) bp (Suc i) k)"

definition libmedia_free_buffers ::
  "world \<Rightarrow> int \<Rightarrow> nat option \<Rightarrow> int \<Rightarrow> int \<times> world" where
  "libmedia_free_buffers w handle bufs count' =
     (case find_device w handle of (dev, w0) \<Rightarrow>
     (case (dev, bufs) of
        (Some d, Some bp) \<Rightarrow>
          if count' \<le> 0 then (- 1, set_last_error MEDIA_ERROR_INVALID_PARAM w0)
          else (0, dev_update d (\<lambda>c. c\<lparr>buffers := None, buffer_count := 0\<rparr>)
                     (free_all w0 bp 0 (nat count')))
      | _ \<Rightarrow> (- 1, set_last_error MEDIA_ERROR_INVALID_PARAM w0)))"

section \<open>Closing a device and the library\<close>

definition libmedia_close_device :: "kernel \<Rightarrow> world \<Rightarrow> int \<Rightarrow> int \<times> world" where
  "libmedia_close_device K w handle =
     (case find_device w handle of
        (None, w0) \<Rightarrow> (- 1, w0)
      | (Some d, w0) \<Rightarrow>
          (let w1 = (if streaming (g_devices w0 d) \<noteq> 0
                     then (if use_multiplanar (g_devices w0 d) \<noteq> 0
                           then snd (libmedia_stop_streaming_mp K w0 handle)
                           else snd (libmedia_stop_streaming K w0 handle))
                     else w0);
               w2 = (case buffers (g_devices w1 d) of
                       Some bp \<Rightarrow>
                         snd (libmedia_free_buffers w1 handle (Some bp)
                                (buffer_count (g_devices w1 d)))
                     | None \<Rightarrow> w1);
               w3 = (if fd (g_devices w2 d) \<ge> 0
                     then dev_update d (\<lambda>c. c\<lparr>fd := - 1\<rparr>) (sys_close w2 (fd (g_devices w2 d)))
                     else w2)
           in (0, w3)))"

text \<open>The loop of \<open>libmedia_deinit\<close> over the slots below \<open>g_device_count\<close>.\<close>

fun close_all :: "kernel \<Rightarrow> world \<Rightarrow> nat \<Rightarrow> nat \<Rightarrow> world" where
  "close_all K w i 0 = w"
| "close_all K w i (Suc k) =
     close_all K
       (if fd (g_devices w i) \<ge> 0 then snd (libmedia_close_device K w (int i)) else w)
       (Suc i) k"

definition libmedia_deinit :: "kernel \<Rightarrow> world \<Rightarrow> world" where
  "libmedia_deinit K w =
     (if g_initialized w = 0 then w
      else (close_all K w 0 (nat (g_device_count w)))\<lparr>g_initialized := 0\<rparr>)"

definition libmedia_get_last_error :: "world \<Rightarrow> media_error" where
  "libmedia_get_last_error w = g_last_error w"

section \<open>Concrete kernels and states\<close>

text \<open>
  A process that has not called the library yet, and a kernel that opens every path,
  accepts every control code and grants every mapping, but never has a frame ready.
\<close>

definition boot :: world where
  "boot = \<lparr>g_devices = (\<lambda>i. zero_device), g_device_count = 0, g_initialized = 0,
     g_last_error = MEDIA_ERROR_NONE, heap = (\<lambda>a. None), trace = [], mapped = [],
     signals = 0, ub = False\<rparr>"

definition mp_reply :: pix_format_mplane where
  "mp_reply = \<lparr>mp_width = 640, mp_height = 480, mp_pixelformat = 842094158, mp_field = 1,
     mp_num_planes = 2, mp_plane_sizeimage = (\<lambda>p. if p = 0 then 307200 else 153600)\<rparr>"

definition pix_reply :: pix_format where
  "pix_reply = \<lparr>pix_width = 640, pix_height = 480, pix_pixelformat = 1448695129,
     pix_field = 1, pix_sizeimage = 614400\<rparr>"

definition buf_reply :: v4l2_buffer where
  "buf_reply = \<lparr>vb_index = 0, vb_bytesused = 614400, vb_length = 1, vb_offset = 0,
     vb_tv_sec = 5, vb_tv_usec = 7, vb_plane_length = (\<lambda>p. 614400),
     vb_plane_mem_offset = (\<lambda>p. 0), vb_plane_bytesused = (\<lambda>p. 614400)\<rparr>"

definition idle_kernel :: kernel where
  "idle_kernel = \<lparr>k_interrupt = (\<lambda>h. False), k_open = (\<lambda>h path. Some (3 + length h)),
     k_s_fmt = (\<lambda>h. Inr pix_reply), k_s_fmt_mp = (\<lambda>h. Inr mp_reply),
     k_reqbufs = (\<lambda>h. Inr 2), k_querybuf = (\<lambda>h. Inr buf_reply),
     k_qbuf = (\<lambda>h. Inr ()), k_dqbuf = (\<lambda>h. Inl EAGAIN),
     k_streamon = (\<lambda>h. Inr ()), k_streamoff = (\<lambda>h. Inr ()),
     k_mmap = (\<lambda>h. Some (4096 * Suc (length h))), k_select = (\<lambda>h. Inr 0)\<rparr>"

definition yuyv_request :: media_format where
  "yuyv_request = \<lparr>width = 640, height = 480, pixelformat = 1448695129, field = 1,
     num_planes = 1, plane_size = (\<lambda>i. if i = 0 then 614400 else 0)\<rparr>"

definition blank_frame :: media_frame where
  "blank_frame = \<lparr>frame_data = NULL, frame_size = 0, frame_width = 0, frame_height = 0,
     frame_pixelformat = 0, frame_timestamp = 0, frame_id = 0\<rparr>"

definition idle_session :: media_session where
  "idle_session = \<lparr>device = Some 0,
     config = \<lparr>cfg_device_path = Some ''/dev/video0'', cfg_format = yuyv_request,
       cfg_buffer_count = 4, cfg_use_multiplanar = 0, nonblocking = 0\<rparr>,
     active = 0\<rparr>"

section \<open>Predicates, single steps and further states used in the proofs\<close>

text \<open>A handle names an open device when \<open>find_device\<close> accepts it.\<close>

definition is_open :: "world \<Rightarrow> int \<Rightarrow> bool" where
  "is_open w handle =
     (0 \<le> handle \<and> handle < g_device_count w \<and> 0 \<le> fd (g_devices w (nat handle)))"

text \<open>
  The state after \<open>libmedia_open_device("/dev/video0")\<close> in a fresh process, and the same
  device later: format negotiated, a pool of two mapped single-plane buffers in the
  caller's array at address 100, streaming started.
\<close>

definition video0 :: device_context where
  "video0 = \<lparr>fd = 3, device_path = ''/dev/video0'', format = zero_format, buffers = None,
     buffer_count = 0, streaming = 0, use_multiplanar = 0\<rparr>"

definition opened_world :: world where
  "opened_world = \<lparr>g_devices = (\<lambda>i. if i = 0 then video0 else zero_device\<lparr>fd := - 1\<rparr>),
     g_device_count = 1, g_initialized = 1, g_last_error = MEDIA_ERROR_NONE,
     heap = (\<lambda>a. None), trace = [Sys_open ''/dev/video0''], mapped = [],
     signals = 0, ub = False\<rparr>"

definition pool_buffer :: "nat \<Rightarrow> media_buffer" where
  "pool_buffer i = \<lparr>start = (\<lambda>p. if p = 0 then Addr (4096 * Suc i) else NULL),
     plane_length = (\<lambda>p. if p = 0 then 614400 else 0), buf_num_planes = 1,
     index = int i, bytes_used = 0, timestamp = 0\<rparr>"

definition yuyv_format :: media_format where
  "yuyv_format = \<lparr>width = 640, height = 480, pixelformat = 1448695129, field = 1,
     num_planes = 1, plane_size = (\<lambda>i. if i = 0 then 614400 else 0)\<rparr>"

definition streaming_world :: world where
  "streaming_world = \<lparr>g_devices =
       (\<lambda>i. if i = 0
            then video0\<lparr>format := yuyv_format, buffers := Some 100, buffer_count := 2,
                         streaming := 1\<rparr>
            else zero_device\<lparr>fd := - 1\<rparr>),
     g_device_count = 1, g_initialized = 1, g_last_error = MEDIA_ERROR_NONE,
     heap = (\<lambda>a. if a = 100 then Some [pool_buffer 0, pool_buffer 1] else None),
     trace = [Sys_open ''/dev/video0''],
     mapped = [(4096, 614400), (8192, 614400)], signals = 0, ub = False\<rparr>"

text \<open>The \<open>timeval\<close> that \<open>libmedia_wait_for_frame\<close> hands to \<open>select\<close>.\<close>

definition select_timeout :: "int \<Rightarrow> (int \<times> int) option" where
  "select_timeout timeout_ms =
     (if timeout_ms \<ge> 0 then Some (timeout_ms div 1000, (timeout_ms mod 1000) * 1000)
      else None)"

text \<open>
  Kernels for the capture path: one that interrupts every system call while a signal is
  pending and has a frame ready, one that has a frame ready and hands it out, and one
  that reports readiness but has no frame to hand out. Then the streaming device after
  a wait of one second has timed out.
\<close>

definition signal_kernel :: kernel where
  "signal_kernel = idle_kernel\<lparr>k_interrupt := (\<lambda>h. True), k_select := (\<lambda>h. Inr 1)\<rparr>"

definition ready_kernel :: kernel where
  "ready_kernel = idle_kernel\<lparr>k_select := (\<lambda>h. Inr 1), k_dqbuf := (\<lambda>h. Inr buf_reply)\<rparr>"

definition spurious_kernel :: kernel where
  "spurious_kernel = idle_kernel\<lparr>k_select := (\<lambda>h. Inr 1)\<rparr>"

definition timed_out_world :: world where
  "timed_out_world = streaming_world\<lparr>g_last_error := MEDIA_ERROR_TIMEOUT,
     trace := [Sys_open ''/dev/video0'', Sys_select 3 (Some (1, 0))]\<rparr>"

text \<open>
  The pool a device records is sound when its size is a non-negative \<open>int\<close> and, unless
  it is 0, \<open>buffers\<close> points to an array with at least that many entries.
\<close>

definition pool_ok :: "world \<Rightarrow> nat \<Rightarrow> bool" where
  "pool_ok w d =
     (0 \<le> buffer_count (g_devices w d) \<and> buffer_count (g_devices w d) < 2 ^ 31 \<and>
      (buffer_count (g_devices w d) = 0 \<or>
       (case buffers (g_devices w d) of
          None \<Rightarrow> False
        | Some bp \<Rightarrow>
            (case heap w bp of
               None \<Rightarrow> False
             | Some arr \<Rightarrow> nat (buffer_count (g_devices w d)) \<le> length arr))))"

text \<open>A kernel that reports buffer index 7 on dequeue.\<close>

definition rogue_kernel :: kernel where
  "rogue_kernel = idle_kernel\<lparr>k_dqbuf := (\<lambda>h. Inr (buf_reply\<lparr>vb_index := 7\<rparr>))\<rparr>"

text \<open>The two-plane NV12 format that \<open>idle_kernel\<close> accepts.\<close>

definition accepted_format :: media_format where
  "accepted_format = \<lparr>width = 640, height = 480, pixelformat = 842094158, field = 1,
     num_planes = 2,
     plane_size = (\<lambda>i. if i = 0 then 307200 else if i = 1 then 153600 else 0)\<rparr>"

text \<open>System calls that release a mapping.\<close>

definition is_munmap :: "syscall \<Rightarrow> bool" where
  "is_munmap c = (case c of Sys_munmap a len \<Rightarrow> True | _ \<Rightarrow> False)"

text \<open>
  Plane \<open>p\<close> of buffer \<open>i\<close> is settled when the loop body of \<open>libmedia_free_buffers\<close>
  finds nothing to unmap there: the pointer is null or \<open>MAP_FAILED\<close> (or the access is
  outside the arrays and undefined behaviour has been recorded already).
\<close>

definition settled :: "world \<Rightarrow> nat \<Rightarrow> nat \<Rightarrow> nat \<Rightarrow> bool" where
  "settled w bp i p =
     (case pool_read w (Some bp) i of
        None \<Rightarrow> ub w
      | Some b \<Rightarrow>
          if p < VIDEO_MAX_PLANES
          then (case start b p of Addr a \<Rightarrow> False | _ \<Rightarrow> True)
          else ub w)"

definition settled_buf :: "world \<Rightarrow> nat \<Rightarrow> nat \<Rightarrow> bool" where
  "settled_buf w bp i =
     (case pool_read w (Some bp) i of
        None \<Rightarrow> ub w
      | Some b \<Rightarrow> list_all (\<lambda>q. settled w bp i q) [0..<nat (buf_num_planes b)])"

text \<open>One pass of the outer loop of \<open>libmedia_free_buffers\<close> over buffer \<open>i\<close>.\<close>

definition free_buffer :: "world \<Rightarrow> nat \<Rightarrow> nat \<Rightarrow> world" where
  "free_buffer w bp i =
     (case pool_read w (Some bp) i of
        None \<Rightarrow> w\<lparr>ub := True\<rparr>
      | Some b \<Rightarrow> free_planes w bp i 0 (nat (buf_num_planes b)))"

text \<open>The buffer type \<open>libmedia_close_device\<close> stops the stream with.\<close>

definition stream_type :: "device_context \<Rightarrow> buf_type" where
  "stream_type c =
     (if use_multiplanar c \<noteq> 0 then V4L2_BUF_TYPE_VIDEO_CAPTURE_MPLANE
      else V4L2_BUF_TYPE_VIDEO_CAPTURE)"

text \<open>The hardware accepts the stream-stop signal that \<open>libmedia_close_device\<close> sends.\<close>

definition stop_accepted :: "kernel \<Rightarrow> world \<Rightarrow> int \<Rightarrow> bool" where
  "stop_accepted K w handle =
     (case fst (xioctl K (k_streamoff K) w (fd (g_devices w (nat handle)))
                  (VIDIOC_STREAMOFF (stream_type (g_devices w (nat handle))))) of
        Inl e \<Rightarrow> False
      | Inr u \<Rightarrow> True)"

text \<open>
  A kernel that rejects the stream-stop signal, and the streaming device after such a
  rejected stop.
\<close>

definition stuck_kernel :: kernel where
  "stuck_kernel = idle_kernel\<lparr>k_streamoff := (\<lambda>h. Inl EIO)\<rparr>"

text \<open>The stop that \<open>libmedia_close_device\<close> forces on a streaming device.\<close>

definition forced_stop :: "kernel \<Rightarrow> world \<Rightarrow> int \<Rightarrow> world" where
  "forced_stop K w handle =
     (if streaming (g_devices w (nat handle)) \<noteq> 0
      then (if use_multiplanar (g_devices w (nat handle)) \<noteq> 0
            then snd (libmedia_stop_streaming_mp K w handle)
            else snd (libmedia_stop_streaming K w handle))
      else w)"

text \<open>The pool free that \<open>libmedia_close_device\<close> forces when a pool is recorded.\<close>

definition forced_free :: "world \<Rightarrow> int \<Rightarrow> world" where
  "forced_free w handle =
     (case buffers (g_devices w (nat handle)) of
        Some bp \<Rightarrow>
          snd (libmedia_free_buffers w handle (Some bp) (buffer_count (g_devices w (nat handle))))
      | None \<Rightarrow> w)"

definition stop_failed_world :: world where
  "stop_failed_world =
     set_last_error MEDIA_ERROR_STREAMING_ERROR
       (record_call (Sys_ioctl 3 (VIDIOC_STREAMOFF V4L2_BUF_TYPE_VIDEO_CAPTURE)) streaming_world)"

text \<open>
  The mappings a pool holds, in the order \<open>libmedia_free_buffers\<close> walks them: for each
  of the first \<open>n\<close> buffers of the array at \<open>bp\<close>, for each of its planes, the address
  and the recorded length of a plane that is mapped. \<open>unmap_calls\<close> is the \<open>munmap\<close> call
  for each of them, and \<open>released\<close> the mapping table after these calls.
\<close>

definition plane_map :: "media_buffer \<Rightarrow> nat \<Rightarrow> (nat \<times> nat) list" where
  "plane_map b p = (case start b p of Addr a \<Rightarrow> [(a, plane_length b p)] | _ \<Rightarrow> [])"

definition buffer_maps :: "media_buffer \<Rightarrow> (nat \<times> nat) list" where
  "buffer_maps b = concat (map (plane_map b) [0..<nat (buf_num_planes b)])"

definition pool_maps :: "world \<Rightarrow> nat \<Rightarrow> nat \<Rightarrow> (nat \<times> nat) list" where
  "pool_maps w bp n =
     concat (map (\<lambda>i. case pool_read w (Some bp) i of
                         None \<Rightarrow> []
                       | Some b \<Rightarrow> buffer_maps b) [0..<n])"

definition unmap_calls :: "(nat \<times> nat) list \<Rightarrow> syscall list" where
  "unmap_calls ms = map (\<lambda>(a, len). Sys_munmap a len) ms"

definition released :: "(nat \<times> nat) list \<Rightarrow> (nat \<times> nat) list \<Rightarrow> (nat \<times> nat) list" where
  "released ms m = foldl (\<lambda>m x. remove1 x m) m ms"

text \<open>A pointer that \<open>mmap\<close> returned on success.\<close>

definition is_addr :: "vptr \<Rightarrow> bool" where
  "is_addr v = (case v of Addr a \<Rightarrow> True | _ \<Rightarrow> False)"

text \<open>Every plane of a buffer, as many as the buffer says it has, is mapped.\<close>

definition fully_mapped :: "media_buffer \<Rightarrow> bool" where
  "fully_mapped b = list_all (\<lambda>p. is_addr (start b p)) [0..<nat (buf_num_planes b)]"

text \<open>Entry \<open>j\<close> of the array at \<open>bp\<close> carries its own index and is fully mapped.\<close>

definition slot_mapped :: "world \<Rightarrow> nat \<Rightarrow> nat \<Rightarrow> bool" where
  "slot_mapped w bp j =
     (case pool_read w (Some bp) j of
        None \<Rightarrow> False
      | Some b \<Rightarrow> index b = sint (of_nat j :: 32 word) \<and> fully_mapped b)"

text \<open>One pass of the mapping loop of \<open>libmedia_request_buffers\<close>, for buffer \<open>i\<close>.\<close>

definition map_one :: "kernel \<Rightarrow> world \<Rightarrow> int \<Rightarrow> nat \<Rightarrow> nat \<Rightarrow> bool \<times> world" where
  "map_one K w f bp i =
     (case xioctl K (k_querybuf K) w f
             (VIDIOC_QUERYBUF V4L2_BUF_TYPE_VIDEO_CAPTURE (of_nat i)) of
        (Inl e, w1) \<Rightarrow> (False, set_last_error MEDIA_ERROR_BUFFER_ERROR w1)
      | (Inr vb, w1) \<Rightarrow>
          (case sys_mmap K w1 (unat (vb_length vb)) f (unat (vb_offset vb)) of
             (ptr, w2) \<Rightarrow>
               (let w3 = pool_write w2 bp i (\<lambda>b. b\<lparr>start := (start b)(0 := ptr)\<rparr>) in
                if ptr = MAP_FAILED
                then (False, set_last_error MEDIA_ERROR_OUT_OF_MEMORY w3)
                else (True,
                      pool_write w3 bp i
                        (\<lambda>b. b\<lparr>plane_length := (plane_length b)(0 := unat (vb_length vb)),
                               buf_num_planes := 1,
                               index := sint (of_nat i :: 32 word)\<rparr>)))))"

text \<open>One pass of the plane loop of \<open>libmedia_request_buffers_mp\<close>, for plane \<open>p\<close>.\<close>

definition map_plane_one ::
  "kernel \<Rightarrow> world \<Rightarrow> int \<Rightarrow> nat \<Rightarrow> nat \<Rightarrow> v4l2_buffer \<Rightarrow> nat \<Rightarrow> bool \<times> world" where
  "map_plane_one K w f bp i vb p =
     (if p < VIDEO_MAX_PLANES
      then (case sys_mmap K w (unat (vb_plane_length vb p)) f (unat (vb_plane_mem_offset vb p)) of
              (ptr, w1) \<Rightarrow>
                (let w2 = pool_write w1 bp i (\<lambda>b. b\<lparr>start := (start b)(p := ptr)\<rparr>) in
                 if ptr = MAP_FAILED
                 then (False, set_last_error MEDIA_ERROR_OUT_OF_MEMORY w2)
                 else (True,
                       pool_write w2 bp i
                         (\<lambda>b. b\<lparr>plane_length :=
                                  (plane_length b)(p := unat (vb_plane_length vb p))\<rparr>))))
      else (False, w\<lparr>ub := True\<rparr>))"

text \<open>One pass of the buffer loop of \<open>libmedia_request_buffers_mp\<close>, for buffer \<open>i\<close>.\<close>

definition map_one_mp :: "kernel \<Rightarrow> world \<Rightarrow> int \<Rightarrow> nat \<Rightarrow> nat \<Rightarrow> bool \<times> world" where
  "map_one_mp K w f bp i =
     (case xioctl K (k_querybuf K) w f
             (VIDIOC_QUERYBUF V4L2_BUF_TYPE_VIDEO_CAPTURE_MPLANE (of_nat i)) of
        (Inl e, w1) \<Rightarrow> (False, set_last_error MEDIA_ERROR_BUFFER_ERROR w1)
      | (Inr vb, w1) \<Rightarrow>
          map_planes K
            (pool_write w1 bp i
               (\<lambda>b. b\<lparr>buf_num_planes := sint (vb_length vb),
                      index := sint (of_nat i :: 32 word)\<rparr>))
            f bp i vb 0 (unat (vb_length vb)))"

text \<open>
  From \<open>w\<close> to \<open>w'\<close> nothing has been released: the system calls made in between contain
  no \<open>munmap\<close>, and every mapping of \<open>w\<close> is still in place in \<open>w'\<close>.
\<close>

definition no_release :: "world \<Rightarrow> world \<Rightarrow> bool" where
  "no_release w w' =
     (take (length (trace w)) (trace w') = trace w \<and>
      list_all (\<lambda>c. \<not> is_munmap c) (drop (length (trace w)) (trace w')) \<and>
      take (length (mapped w)) (mapped w') = mapped w)"

text \<open>
  The opened device with an array of four buffers the caller has allocated at address
  100; a kernel that grants two buffers of 614400 bytes each; and one whose second
  \<open>mmap\<close> fails.
\<close>

definition alloc_world :: world where
  "alloc_world = opened_world\<lparr>heap :=
     (\<lambda>a. if a = 100 then Some [uninit_buffer, uninit_buffer, uninit_buffer, uninit_buffer]
          else None)\<rparr>"

definition sp_kernel :: kernel where
  "sp_kernel = idle_kernel\<lparr>k_querybuf := (\<lambda>h. Inr (buf_reply\<lparr>vb_length := 614400\<rparr>))\<rparr>"

definition leaky_kernel :: kernel where
  "leaky_kernel = sp_kernel\<lparr>k_mmap := (\<lambda>h. if length h \<le> 3 then Some 4096 else None)\<rparr>"

text \<open>A multi-planar kernel (one plane per buffer) whose second \<open>mmap\<close> fails.\<close>

definition leaky_mp_kernel :: kernel where
  "leaky_mp_kernel = idle_kernel\<lparr>k_mmap := (\<lambda>h. if length h \<le> 3 then Some 4096 else None)\<rparr>"

text \<open>
  A client of the registry: a process that calls \<open>libmedia_open_device\<close>,
  \<open>libmedia_close_device\<close> and \<open>libmedia_deinit\<close> in some order. \<open>calls\<close> runs the
  sequence and collects what the opens returned.
\<close>

datatype call = Open "string option" | Close int | Deinit

fun calls :: "kernel \<Rightarrow> world \<Rightarrow> call list \<Rightarrow> int list \<times> world" where
  "calls K w [] = ([], w)"
| "calls K w (Open p # cs) =
     (case libmedia_open_device K w p of (r, w1) \<Rightarrow>
        (case calls K w1 cs of (rs, w2) \<Rightarrow> (r # rs, w2)))"
| "calls K w (Close h # cs) = calls K (snd (libmedia_close_device K w h)) cs"
| "calls K w (Deinit # cs) = calls K (libmedia_deinit K w) cs"

text \<open>A process that has initialised the library and opened nothing yet.\<close>

definition ready_world :: world where
  "ready_world = snd (libmedia_init boot)"

definition open_video0 :: call where
  "open_video0 = Open (Some ''/dev/video0'')"

section \<open>System calls: what they leave unchanged\<close>

lemma xioctl_world:
  "xioctl K ans w f req = (r, w') \<Longrightarrow>
   \<exists>n. w' = w\<lparr>trace := trace w @ replicate (Suc n) (Sys_ioctl f req),
                 signals := signals w - n\<rparr>"
proof (induction K ans w f req arbitrary: r w' rule: xioctl.induct)
  case (1 K ans w f req)
  show ?case
  proof (cases "interrupted K w")
    case True
    let ?w1 = "record_call (Sys_ioctl f req) (w\<lparr>signals := signals w - 1\<rparr>)"
    have step: "sys_ioctl K ans w f req = (Inl EINTR, ?w1)"
      using True by (simp add: sys_ioctl_def)
    then have "xioctl K ans ?w1 f req = (r, w')"
      using "1.prems" by (simp add: xioctl.simps [of K ans w])
    from "1.IH" [OF step [symmetric] refl refl this]
    obtain n where "w' = ?w1\<lparr>trace := trace ?w1 @ replicate (Suc n) (Sys_ioctl f req),
                               signals := signals ?w1 - n\<rparr>" by blast
    then have "w' = w\<lparr>trace := trace w @ replicate (Suc (Suc n)) (Sys_ioctl f req),
                       signals := signals w - Suc n\<rparr>"
      by (simp add: record_call_def replicate_app_Cons_same)
    then show ?thesis by blast
  next
    case False
    then have "w' = record_call (Sys_ioctl f req) w"
      using "1.prems"
      by (auto simp: xioctl.simps [of K ans w] sys_ioctl_def split: sum.splits)
    then have "w' = w\<lparr>trace := trace w @ replicate (Suc 0) (Sys_ioctl f req),
                       signals := signals w - 0\<rparr>"
      by (simp add: record_call_def)
    then show ?thesis by blast
  qed
qed

lemma xioctl_uninterrupted:
  "\<not> interrupted K w \<Longrightarrow> xioctl K ans w f req = (ans (trace w), record_call (Sys_ioctl f req) w)"
  by (auto simp: xioctl.simps [of K ans w] sys_ioctl_def split: sum.splits)

lemma xioctl_fields [simp]:
  "g_devices (snd (xioctl K ans w f req)) = g_devices w"
  "g_device_count (snd (xioctl K ans w f req)) = g_device_count w"
  "g_initialized (snd (xioctl K ans w f req)) = g_initialized w"
  "g_last_error (snd (xioctl K ans w f req)) = g_last_error w"
  "heap (snd (xioctl K ans w f req)) = heap w"
  "mapped (snd (xioctl K ans w f req)) = mapped w"
  "ub (snd (xioctl K ans w f req)) = ub w"
  using xioctl_world [of K ans w f req "fst (xioctl K ans w f req)" "snd (xioctl K ans w f req)"]
  by auto

lemma xioctl_fields' :
  assumes "xioctl K ans w f req = (r, w')"
  shows "g_devices w' = g_devices w" "g_device_count w' = g_device_count w"
    "g_initialized w' = g_initialized w" "g_last_error w' = g_last_error w"
    "heap w' = heap w" "mapped w' = mapped w" "ub w' = ub w"
  using xioctl_fields [of K ans w f req] assms by simp_all

section \<open>Capture through a session\<close>

text \<open>
  C8. For a session whose \<open>active\<close> flag is not set, \<open>libmedia_session_capture_frame\<close>
  returns the error code -1 whatever the kernel would answer: the frame is left as it
  was and the state changes in the last-error slot only (streaming error, or invalid
  parameter when the device pointer or the frame pointer is null). No system call is
  made and no capture function of the endpoint runs.
\<close>

theorem session_capture_inactive:
  "active s = 0 \<Longrightarrow>
   libmedia_session_capture_frame K w (Some s) frame_arg timeout_ms =
     (- 1, frame_arg,
      set_last_error (if device s = None \<or> frame_arg = None then MEDIA_ERROR_INVALID_PARAM
                      else MEDIA_ERROR_STREAMING_ERROR) w)"
  by (simp add: libmedia_session_capture_frame_def split: option.splits)

theorem session_capture_inactive_witness:
  "active idle_session = 0 \<and>
   libmedia_session_capture_frame idle_kernel boot (Some idle_session) (Some blank_frame) 1000 =
     (- 1, Some blank_frame, set_last_error MEDIA_ERROR_STREAMING_ERROR boot) \<and>
   trace (set_last_error MEDIA_ERROR_STREAMING_ERROR boot) = trace boot"
  using session_capture_inactive [of idle_session idle_kernel boot "Some blank_frame" 1000]
  by (simp add: idle_session_def set_last_error_def)

section \<open>Open devices\<close>

lemma find_device_open: "is_open w handle \<Longrightarrow> find_device w handle = (Some (nat handle), w)"
  by (auto simp: is_open_def find_device_def)

lemma find_device_Some:
  "find_device w handle = (Some d, w0) \<Longrightarrow> w0 = w \<and> d = nat handle \<and> is_open w handle"
  by (auto simp: is_open_def find_device_def split: if_splits)

lemma find_device_None:
  "find_device w handle = (None, w0) \<Longrightarrow>
   \<not> is_open w handle \<and> (\<exists>e. w0 = set_last_error e w)"
  by (auto simp: is_open_def find_device_def split: if_splits)

lemma is_open_opened_world: "is_open opened_world 0"
  by (simp add: is_open_def opened_world_def video0_def)

lemma is_open_streaming_world: "is_open streaming_world 0"
  by (simp add: is_open_def streaming_world_def video0_def)

lemma uninterrupted_no_signals: "signals w = 0 \<Longrightarrow> \<not> interrupted K w"
  by (simp add: interrupted_def)

section \<open>The readiness wait\<close>

lemma wait_for_frame_open:
  "is_open w handle \<Longrightarrow>
   libmedia_wait_for_frame K w handle t =
     (case sys_select K w (fd (g_devices w (nat handle))) (select_timeout t) of
        (Inl EINTR, w1) \<Rightarrow> (0, set_last_error MEDIA_ERROR_TIMEOUT w1)
      | (Inl (Errno e), w1) \<Rightarrow> (- 1, set_last_error MEDIA_ERROR_IOCTL_FAILED w1)
      | (Inr n, w1) \<Rightarrow> if n = 0 then (0, set_last_error MEDIA_ERROR_TIMEOUT w1) else (1, w1))"
  by (simp add: libmedia_wait_for_frame_def find_device_open select_timeout_def)

text \<open>
  C3, as the code has it. A readiness wait that a signal interrupts is not retried:
  \<open>libmedia_wait_for_frame\<close> makes its one \<open>select\<close> call, records
  \<open>MEDIA_ERROR_TIMEOUT\<close> and returns 0, which is its result for an elapsed timeout, so
  the interruption reaches its caller as a timeout. A capture whose wait is interrupted
  makes no second wait and no system call after it: the state it leaves is the state
  the interrupted wait left.
\<close>

theorem wait_interrupted_is_timeout:
  assumes "is_open w handle" and "interrupted K w"
  shows "libmedia_wait_for_frame K w handle t =
           (0, set_last_error MEDIA_ERROR_TIMEOUT
                 (record_call (Sys_select (fd (g_devices w (nat handle))) (select_timeout t))
                    (w\<lparr>signals := signals w - 1\<rparr>)))
         \<and> (t \<noteq> 0 \<longrightarrow>
              snd (snd (libmedia_capture_frame K w handle (Some fr) t)) =
                snd (libmedia_wait_for_frame K w handle t)
            \<and> snd (snd (libmedia_capture_frame_mp K w handle (Some fr) t)) =
                snd (libmedia_wait_for_frame K w handle t))"
proof -
  have wait: "libmedia_wait_for_frame K w handle t =
           (0, set_last_error MEDIA_ERROR_TIMEOUT
                 (record_call (Sys_select (fd (g_devices w (nat handle))) (select_timeout t))
                    (w\<lparr>signals := signals w - 1\<rparr>)))"
    using assms by (simp add: wait_for_frame_open sys_select_def)
  show ?thesis
    using assms(1) wait
    by (simp add: libmedia_capture_frame_def libmedia_capture_frame_mp_def find_device_open)
qed

theorem wait_interrupted_is_timeout_witness:
  "is_open (opened_world\<lparr>signals := 1\<rparr>) 0 \<and> interrupted signal_kernel (opened_world\<lparr>signals := 1\<rparr>)
   \<and> fst (libmedia_wait_for_frame signal_kernel (opened_world\<lparr>signals := 1\<rparr>) 0 1000) = 0
   \<and> trace (snd (snd (libmedia_capture_frame signal_kernel (opened_world\<lparr>signals := 1\<rparr>) 0
                        (Some blank_frame) 1000))) =
       [Sys_open ''/dev/video0'', Sys_select 3 (Some (1, 0))]"
proof -
  have o: "is_open (opened_world\<lparr>signals := 1\<rparr>) 0"
    by (simp add: is_open_def opened_world_def video0_def)
  have i: "interrupted signal_kernel (opened_world\<lparr>signals := 1\<rparr>)"
    by (simp add: interrupted_def signal_kernel_def)
  have f: "fd (g_devices (opened_world\<lparr>signals := 1\<rparr>) (nat 0)) = 3"
    "trace (opened_world\<lparr>signals := 1\<rparr>) = [Sys_open ''/dev/video0'']"
    "select_timeout 1000 = Some (1, 0)"
    by (simp_all add: opened_world_def video0_def select_timeout_def)
  show ?thesis
    using o i wait_interrupted_is_timeout [OF o i, of 1000 blank_frame]
    by (simp add: f set_last_error_def record_call_def opened_world_def video0_def)
qed

text \<open>
  The claim as stated fails: one signal is pending and a frame is ready. The interrupted
  wait makes a single \<open>select\<close> call and comes back as a timeout (0, with
  \<open>MEDIA_ERROR_TIMEOUT\<close>); the capture that contains it makes that one call too and leaves
  \<open>MEDIA_ERROR_TIMEOUT\<close> as the last error. A second wait, which the library does not make
  by itself, finds the frame.
\<close>

theorem wait_interrupted_counterexample:
  "fst (libmedia_wait_for_frame signal_kernel (opened_world\<lparr>signals := 1\<rparr>) 0 1000) = 0
   \<and> g_last_error (snd (libmedia_wait_for_frame signal_kernel (opened_world\<lparr>signals := 1\<rparr>) 0 1000))
       = MEDIA_ERROR_TIMEOUT
   \<and> trace (snd (libmedia_wait_for_frame signal_kernel (opened_world\<lparr>signals := 1\<rparr>) 0 1000))
       = [Sys_open ''/dev/video0'', Sys_select 3 (Some (1, 0))]
   \<and> trace (snd (snd (libmedia_capture_frame signal_kernel (opened_world\<lparr>signals := 1\<rparr>) 0
                        (Some blank_frame) 1000)))
       = [Sys_open ''/dev/video0'', Sys_select 3 (Some (1, 0))]
   \<and> g_last_error (snd (snd (libmedia_capture_frame signal_kernel
                        (opened_world\<lparr>signals := 1\<rparr>) 0 (Some blank_frame) 1000)))
       = MEDIA_ERROR_TIMEOUT
   \<and> fst (libmedia_wait_for_frame signal_kernel
            (snd (libmedia_wait_for_frame signal_kernel (opened_world\<lparr>signals := 1\<rparr>) 0 1000))
            0 1000) = 1"
  by (simp add: libmedia_capture_frame_def libmedia_wait_for_frame_def find_device_def
      sys_select_def interrupted_def signal_kernel_def idle_kernel_def opened_world_def
      video0_def set_last_error_def record_call_def)

section \<open>Capture: timeout and success\<close>

lemma capture_frame_open:
  "is_open w handle \<Longrightarrow>
   libmedia_capture_frame K w handle (Some fr) t =
     (case (if t \<noteq> 0 then libmedia_wait_for_frame K w handle t else (1, w)) of
        (wait_result, w1) \<Rightarrow>
          if wait_result \<le> 0 then (wait_result, Some fr, w1)
          else (case libmedia_dequeue_buffer K w1 handle (Some uninit_buffer) of
                  (result, Some b, w2) \<Rightarrow>
                    if result < 0 then (result, Some fr, w2)
                    else (0, Some (fill_frame fr b (format (g_devices w2 (nat handle)))), w2)
                | (result, None, w2) \<Rightarrow> (result, Some fr, w2)))"
  by (simp add: libmedia_capture_frame_def find_device_open)

lemma capture_frame_mp_open:
  "is_open w handle \<Longrightarrow>
   libmedia_capture_frame_mp K w handle (Some fr) t =
     (case (if t \<noteq> 0 then libmedia_wait_for_frame K w handle t else (1, w)) of
        (wait_result, w1) \<Rightarrow>
          if wait_result \<le> 0 then (wait_result, Some fr, w1)
          else (case libmedia_dequeue_buffer_mp K w1 handle (Some uninit_buffer) of
                  (result, Some b, w2) \<Rightarrow>
                    if result < 0 then (result, Some fr, w2)
                    else (0, Some (fill_frame fr b (format (g_devices w2 (nat handle)))), w2)
                | (result, None, w2) \<Rightarrow> (result, Some fr, w2)))"
  by (simp add: libmedia_capture_frame_mp_def find_device_open)

lemma wait_times_out:
  "libmedia_wait_for_frame idle_kernel streaming_world 0 1000 = (0, timed_out_world)"
  by (simp add: libmedia_wait_for_frame_def find_device_def sys_select_def interrupted_def
      idle_kernel_def streaming_world_def video0_def timed_out_world_def
      set_last_error_def record_call_def)

text \<open>
  C2 on a streaming device with a pool of two buffers. The hardware never completes a
  buffer and \<open>select\<close> times out after 1000 ms: both capture functions return 0, the code
  of a successful capture, and leave the frame unfilled. A capture that succeeds next
  returns 0 as well, and the last-error slot still reads \<open>MEDIA_ERROR_TIMEOUT\<close>, so neither
  the return value nor the last error tells the two outcomes apart. When \<open>select\<close>
  reports the device readable and \<open>VIDIOC_DQBUF\<close> answers \<open>EAGAIN\<close>, the capture returns
  -1 with \<open>MEDIA_ERROR_TIMEOUT\<close>.
\<close>

theorem capture_timeout_returns_zero:
  "libmedia_capture_frame idle_kernel streaming_world 0 (Some blank_frame) 1000 =
     (0, Some blank_frame, timed_out_world)
   \<and> libmedia_capture_frame_mp idle_kernel streaming_world 0 (Some blank_frame) 1000 =
     (0, Some blank_frame, timed_out_world)
   \<and> fst (libmedia_capture_frame ready_kernel timed_out_world 0 (Some blank_frame) 1000) = 0
   \<and> fst (snd (libmedia_capture_frame ready_kernel timed_out_world 0 (Some blank_frame) 1000)) =
       Some (fill_frame blank_frame
               (pool_buffer 0\<lparr>bytes_used := 614400, timestamp := 5000007000\<rparr>) yuyv_format)
   \<and> libmedia_get_last_error
         (snd (snd (libmedia_capture_frame ready_kernel timed_out_world 0 (Some blank_frame) 1000)))
       = MEDIA_ERROR_TIMEOUT
   \<and> libmedia_get_last_error timed_out_world = MEDIA_ERROR_TIMEOUT
   \<and> fst (libmedia_capture_frame spurious_kernel streaming_world 0 (Some blank_frame) 1000) = - 1
   \<and> libmedia_get_last_error
         (snd (snd (libmedia_capture_frame spurious_kernel streaming_world 0 (Some blank_frame) 1000)))
       = MEDIA_ERROR_TIMEOUT"
proof -
  have o: "is_open streaming_world 0" by (rule is_open_streaming_world)
  have o': "is_open timed_out_world 0"
    by (simp add: is_open_def timed_out_world_def streaming_world_def video0_def)
  have a: "libmedia_capture_frame idle_kernel streaming_world 0 (Some blank_frame) 1000 =
     (0, Some blank_frame, timed_out_world)"
    by (simp add: capture_frame_open [OF o] wait_times_out)
  have b: "libmedia_capture_frame_mp idle_kernel streaming_world 0 (Some blank_frame) 1000 =
     (0, Some blank_frame, timed_out_world)"
    by (simp add: capture_frame_mp_open [OF o] wait_times_out)
  have w: "libmedia_wait_for_frame ready_kernel timed_out_world 0 1000 =
     (1, timed_out_world\<lparr>trace := trace timed_out_world @ [Sys_select 3 (Some (1, 0))]\<rparr>)"
    by (simp add: libmedia_wait_for_frame_def find_device_def sys_select_def interrupted_def
        ready_kernel_def idle_kernel_def timed_out_world_def streaming_world_def video0_def
        record_call_def)
  have d: "libmedia_dequeue_buffer ready_kernel
             (timed_out_world\<lparr>trace := trace timed_out_world @ [Sys_select 3 (Some (1, 0))]\<rparr>)
             0 (Some uninit_buffer) =
           (0, Some (pool_buffer 0\<lparr>bytes_used := 614400, timestamp := 5000007000\<rparr>),
            timed_out_world\<lparr>trace := trace timed_out_world @
              [Sys_select 3 (Some (1, 0)),
               Sys_ioctl 3 (VIDIOC_DQBUF V4L2_BUF_TYPE_VIDEO_CAPTURE)]\<rparr>)"
    by (simp add: libmedia_dequeue_buffer_def find_device_def xioctl_uninterrupted
        interrupted_def ready_kernel_def idle_kernel_def timed_out_world_def streaming_world_def
        video0_def record_call_def pool_read_def buf_reply_def timestamp_ns_def)
  have c: "libmedia_capture_frame ready_kernel timed_out_world 0 (Some blank_frame) 1000 =
     (0, Some (fill_frame blank_frame
               (pool_buffer 0\<lparr>bytes_used := 614400, timestamp := 5000007000\<rparr>) yuyv_format),
      timed_out_world\<lparr>trace := trace timed_out_world @
              [Sys_select 3 (Some (1, 0)),
               Sys_ioctl 3 (VIDIOC_DQBUF V4L2_BUF_TYPE_VIDEO_CAPTURE)]\<rparr>)"
    by (simp add: capture_frame_open [OF o'] w d)
       (simp add: timed_out_world_def streaming_world_def)
  have w2: "libmedia_wait_for_frame spurious_kernel streaming_world 0 1000 =
     (1, streaming_world\<lparr>trace := trace streaming_world @ [Sys_select 3 (Some (1, 0))]\<rparr>)"
    by (simp add: libmedia_wait_for_frame_def find_device_def sys_select_def interrupted_def
        spurious_kernel_def idle_kernel_def streaming_world_def video0_def record_call_def)
  have d2: "libmedia_dequeue_buffer spurious_kernel
             (streaming_world\<lparr>trace := trace streaming_world @ [Sys_select 3 (Some (1, 0))]\<rparr>)
             0 (Some uninit_buffer) =
           (- 1, Some uninit_buffer,
            streaming_world\<lparr>g_last_error := MEDIA_ERROR_TIMEOUT,
              trace := trace streaming_world @
              [Sys_select 3 (Some (1, 0)),
               Sys_ioctl 3 (VIDIOC_DQBUF V4L2_BUF_TYPE_VIDEO_CAPTURE)]\<rparr>)"
    by (simp add: libmedia_dequeue_buffer_def find_device_def xioctl_uninterrupted
        interrupted_def spurious_kernel_def idle_kernel_def streaming_world_def
        video0_def record_call_def set_last_error_def)
  have e: "libmedia_capture_frame spurious_kernel streaming_world 0 (Some blank_frame) 1000 =
     (- 1, Some blank_frame,
      streaming_world\<lparr>g_last_error := MEDIA_ERROR_TIMEOUT,
              trace := trace streaming_world @
              [Sys_select 3 (Some (1, 0)),
               Sys_ioctl 3 (VIDIOC_DQBUF V4L2_BUF_TYPE_VIDEO_CAPTURE)]\<rparr>)"
    by (simp add: capture_frame_open [OF o] w2 d2)
  show ?thesis
    by (simp add: a b c e libmedia_get_last_error_def) (simp add: timed_out_world_def)
qed

section \<open>Dequeue: the index check\<close>

lemma pool_size_compare:
  "0 \<le> n \<Longrightarrow> n < 2 ^ 31 \<Longrightarrow> ((word_of_int n :: 32 word) \<le> x) = (n \<le> int (unat x))"
  by (simp add: word_le_def uint_word_of_int take_bit_int_eq_self)

lemma pool_ok_read:
  "pool_ok w d \<Longrightarrow> int i < buffer_count (g_devices w d) \<Longrightarrow>
   \<exists>pb. pool_read w (buffers (g_devices w d)) i = Some pb"
  by (auto simp: pool_ok_def pool_read_def split: option.splits)

lemma dequeue_buffer_open:
  "is_open w handle \<Longrightarrow>
   libmedia_dequeue_buffer K w handle (Some b) =
     (case xioctl K (k_dqbuf K) w (fd (g_devices w (nat handle)))
             (VIDIOC_DQBUF V4L2_BUF_TYPE_VIDEO_CAPTURE) of
        (Inl e, w1) \<Rightarrow>
          (- 1, Some b,
           set_last_error (if e = EAGAIN then MEDIA_ERROR_TIMEOUT
                           else MEDIA_ERROR_BUFFER_ERROR) w1)
      | (Inr vb, w1) \<Rightarrow>
          if vb_index vb \<ge> (word_of_int (buffer_count (g_devices w1 (nat handle))) :: 32 word)
          then (- 1, Some b, set_last_error MEDIA_ERROR_BUFFER_ERROR w1)
          else (case pool_read w1 (buffers (g_devices w1 (nat handle))) (unat (vb_index vb)) of
                  None \<Rightarrow> (0, Some b, w1\<lparr>ub := True\<rparr>)
                | Some pb \<Rightarrow>
                    (0, Some (pb\<lparr>bytes_used := vb_bytesused vb,
                                 timestamp := timestamp_ns vb\<rparr>), w1)))"
  by (simp add: libmedia_dequeue_buffer_def find_device_open)

lemma dequeue_buffer_mp_open:
  "is_open w handle \<Longrightarrow>
   libmedia_dequeue_buffer_mp K w handle (Some b) =
     (case xioctl K (k_dqbuf K) w (fd (g_devices w (nat handle)))
             (VIDIOC_DQBUF V4L2_BUF_TYPE_VIDEO_CAPTURE_MPLANE) of
        (Inl e, w1) \<Rightarrow>
          (- 1, Some b,
           set_last_error (if e = EAGAIN then MEDIA_ERROR_TIMEOUT
                           else MEDIA_ERROR_BUFFER_ERROR) w1)
      | (Inr vb, w1) \<Rightarrow>
          if vb_index vb \<ge> (word_of_int (buffer_count (g_devices w1 (nat handle))) :: 32 word)
          then (- 1, Some b, set_last_error MEDIA_ERROR_BUFFER_ERROR w1)
          else (case pool_read w1 (buffers (g_devices w1 (nat handle))) (unat (vb_index vb)) of
                  None \<Rightarrow> (0, Some b, w1\<lparr>ub := True\<rparr>)
                | Some pb \<Rightarrow>
                    (0, Some (pb\<lparr>bytes_used := vb_plane_bytesused vb 0,
                                 timestamp := timestamp_ns vb\<rparr>), w1)))"
  by (simp add: libmedia_dequeue_buffer_mp_def find_device_open)

lemma pool_read_trace [simp]:
  "pool_read (w\<lparr>trace := t\<rparr>) p i = pool_read w p i"
  "pool_read (w\<lparr>signals := n\<rparr>) p i = pool_read w p i"
  "pool_read (w\<lparr>g_last_error := e\<rparr>) p i = pool_read w p i"
  by (simp_all add: pool_read_def split: option.splits)

lemma pool_read_cong: "heap w1 = heap w \<Longrightarrow> pool_read w1 p i = pool_read w p i"
  by (simp add: pool_read_def split: option.splits)

text \<open>
  C6. Both dequeue functions compare the index the hardware reports, as an unsigned
  32-bit number, with the pool size the device records before they read the pool array:
  an index at or beyond the size gives -1 with \<open>MEDIA_ERROR_BUFFER_ERROR\<close> and the
  caller's buffer is left as it was. When the recorded pool is sound, no call reads
  outside the array (\<open>ub\<close> is not raised), an index at or beyond the pool size is an
  error, and a call that returns 0 hands out the entry of the pool at the reported index.
\<close>

theorem dequeue_index_checked:
  assumes which: "(dq = libmedia_dequeue_buffer \<and> ty = V4L2_BUF_TYPE_VIDEO_CAPTURE) \<or>
                  (dq = libmedia_dequeue_buffer_mp \<and> ty = V4L2_BUF_TYPE_VIDEO_CAPTURE_MPLANE)"
    and op: "is_open w handle"
    and run: "dq K w handle (Some b) = (r, b', w')"
  shows "(pool_ok w (nat handle) \<longrightarrow> ub w' = ub w)
       \<and> (\<forall>vb w1.
            xioctl K (k_dqbuf K) w (fd (g_devices w (nat handle))) (VIDIOC_DQBUF ty) = (Inr vb, w1)
            \<longrightarrow>
              (word_of_int (buffer_count (g_devices w (nat handle))) \<le> vb_index vb \<longrightarrow>
                 r = - 1 \<and> b' = Some b \<and> w' = set_last_error MEDIA_ERROR_BUFFER_ERROR w1)
            \<and> (pool_ok w (nat handle) \<longrightarrow>
                 buffer_count (g_devices w (nat handle)) \<le> int (unat (vb_index vb)) \<longrightarrow>
                 r = - 1 \<and> g_last_error w' = MEDIA_ERROR_BUFFER_ERROR)
            \<and> (pool_ok w (nat handle) \<longrightarrow> r = 0 \<longrightarrow>
                 int (unat (vb_index vb)) < buffer_count (g_devices w (nat handle)) \<and>
                 (\<exists>pb. pool_read w (buffers (g_devices w (nat handle))) (unat (vb_index vb)) = Some pb
                       \<and> start (the b') = start pb \<and> plane_length (the b') = plane_length pb
                       \<and> index (the b') = index pb)))"
proof -
  let ?d = "nat handle"
  let ?x = "xioctl K (k_dqbuf K) w (fd (g_devices w ?d)) (VIDIOC_DQBUF ty)"
  obtain a w1 where x: "?x = (a, w1)" by (cases ?x)
  note fr = xioctl_fields' [OF x]
  have rd: "pool_read w1 p i = pool_read w p i" for p i
    by (rule pool_read_cong) (rule fr)
  have ok: "pool_ok w ?d \<Longrightarrow> vb_index vb < word_of_int (buffer_count (g_devices w ?d)) \<Longrightarrow>
            \<exists>pb. pool_read w (buffers (g_devices w ?d)) (unat (vb_index vb)) = Some pb" for vb :: v4l2_buffer
    using pool_size_compare [of "buffer_count (g_devices w ?d)" "vb_index vb"]
    by (intro pool_ok_read) (auto simp: pool_ok_def not_le [symmetric])
  have cmp: "pool_ok w ?d \<Longrightarrow>
             (word_of_int (buffer_count (g_devices w ?d)) \<le> vb_index vb) =
             (buffer_count (g_devices w ?d) \<le> int (unat (vb_index vb)))" for vb :: v4l2_buffer
    by (rule pool_size_compare) (simp_all add: pool_ok_def)
  show ?thesis
  proof (cases a)
    case (Inl e)
    then show ?thesis
      using which op run x fr
      by (auto simp: dequeue_buffer_open dequeue_buffer_mp_open set_last_error_def)
  next
    case (Inr vb)
    show ?thesis
    proof (cases "word_of_int (buffer_count (g_devices w ?d)) \<le> vb_index vb")
      case True
      then show ?thesis
        using which op run x fr Inr
        by (auto simp: dequeue_buffer_open dequeue_buffer_mp_open set_last_error_def)
    next
      case False
      then have lt: "vb_index vb < word_of_int (buffer_count (g_devices w ?d))" by simp
      show ?thesis
      proof (cases "pool_ok w ?d")
        case True
        from ok [OF True lt] obtain pb
          where pb: "pool_read w (buffers (g_devices w ?d)) (unat (vb_index vb)) = Some pb"
          by blast
        show ?thesis
          using which op run x fr Inr False pb cmp [OF True, of vb] True
          by (auto simp: dequeue_buffer_open dequeue_buffer_mp_open rd)
      next
        case False
        then show ?thesis
          using which op run x fr Inr \<open>\<not> word_of_int (buffer_count (g_devices w ?d)) \<le> vb_index vb\<close>
          by (auto simp: dequeue_buffer_open dequeue_buffer_mp_open)
      qed
    qed
  qed
qed

theorem dequeue_index_checked_witness:
  "is_open streaming_world 0 \<and> pool_ok streaming_world 0
   \<and> ub (snd (snd (libmedia_dequeue_buffer ready_kernel streaming_world 0 (Some uninit_buffer))))
       = ub streaming_world
   \<and> xioctl rogue_kernel (k_dqbuf rogue_kernel) streaming_world 3
        (VIDIOC_DQBUF V4L2_BUF_TYPE_VIDEO_CAPTURE) =
       (Inr (buf_reply\<lparr>vb_index := 7\<rparr>),
        record_call (Sys_ioctl 3 (VIDIOC_DQBUF V4L2_BUF_TYPE_VIDEO_CAPTURE)) streaming_world)
   \<and> fst (libmedia_dequeue_buffer rogue_kernel streaming_world 0 (Some uninit_buffer)) = - 1"
proof -
  have o: "is_open streaming_world 0" by (rule is_open_streaming_world)
  have p: "pool_ok streaming_world 0"
    by (simp add: pool_ok_def streaming_world_def video0_def)
  have f: "fd (g_devices streaming_world (nat 0)) = 3"
    by (simp add: streaming_world_def video0_def)
  have n: "buffer_count (g_devices streaming_world (nat 0)) = 2"
    by (simp add: streaming_world_def video0_def)
  have x: "xioctl rogue_kernel (k_dqbuf rogue_kernel) streaming_world 3
        (VIDIOC_DQBUF V4L2_BUF_TYPE_VIDEO_CAPTURE) =
       (Inr (buf_reply\<lparr>vb_index := 7\<rparr>),
        record_call (Sys_ioctl 3 (VIDIOC_DQBUF V4L2_BUF_TYPE_VIDEO_CAPTURE)) streaming_world)"
    by (simp add: xioctl_uninterrupted interrupted_def rogue_kernel_def idle_kernel_def
        streaming_world_def)
  have a: "ub (snd (snd (libmedia_dequeue_buffer ready_kernel streaming_world 0 (Some uninit_buffer))))
       = ub streaming_world"
    using dequeue_index_checked [of libmedia_dequeue_buffer V4L2_BUF_TYPE_VIDEO_CAPTURE
        streaming_world 0 ready_kernel uninit_buffer
        "fst (libmedia_dequeue_buffer ready_kernel streaming_world 0 (Some uninit_buffer))"
        "fst (snd (libmedia_dequeue_buffer ready_kernel streaming_world 0 (Some uninit_buffer)))"
        "snd (snd (libmedia_dequeue_buffer ready_kernel streaming_world 0 (Some uninit_buffer)))"]
      o p by simp
  have b: "fst (libmedia_dequeue_buffer rogue_kernel streaming_world 0 (Some uninit_buffer)) = - 1"
    using dequeue_index_checked [of libmedia_dequeue_buffer V4L2_BUF_TYPE_VIDEO_CAPTURE
        streaming_world 0 rogue_kernel uninit_buffer
        "fst (libmedia_dequeue_buffer rogue_kernel streaming_world 0 (Some uninit_buffer))"
        "fst (snd (libmedia_dequeue_buffer rogue_kernel streaming_world 0 (Some uninit_buffer)))"
        "snd (snd (libmedia_dequeue_buffer rogue_kernel streaming_world 0 (Some uninit_buffer)))"]
      o x f n by simp
  show ?thesis using o p a b x by simp
qed

section \<open>Format negotiation and the cached format\<close>

lemma copy_plane_sizes_fields:
  "width (fst (copy_plane_sizes r (fmt, u) i k)) = width fmt"
  "height (fst (copy_plane_sizes r (fmt, u) i k)) = height fmt"
  "pixelformat (fst (copy_plane_sizes r (fmt, u) i k)) = pixelformat fmt"
  "field (fst (copy_plane_sizes r (fmt, u) i k)) = field fmt"
  "num_planes (fst (copy_plane_sizes r (fmt, u) i k)) = num_planes fmt"
  by (induction k arbitrary: fmt u i; simp)+

lemma copy_plane_sizes_outside:
  "j < i \<or> i + k \<le> j \<Longrightarrow>
   plane_size (fst (copy_plane_sizes r (fmt, u) i k)) j = plane_size fmt j"
  by (induction k arbitrary: fmt u i) auto

lemma copy_plane_sizes_inside:
  "i \<le> j \<Longrightarrow> j < i + k \<Longrightarrow> j < VIDEO_MAX_PLANES \<Longrightarrow>
   plane_size (fst (copy_plane_sizes r (fmt, u) i k)) j = mp_plane_sizeimage r j"
proof (induction k arbitrary: fmt u i)
  case 0
  then show ?case by simp
next
  case (Suc k)
  show ?case
  proof (cases "j = i")
    case True
    then show ?thesis
      using Suc.prems by (simp add: copy_plane_sizes_outside)
  next
    case False
    then have "Suc i \<le> j" "j < Suc i + k" using Suc.prems by simp_all
    from Suc.IH [OF this Suc.prems(3)] show ?thesis by simp
  qed
qed

lemma copy_plane_sizes_in_bounds:
  "i + k \<le> VIDEO_MAX_PLANES \<Longrightarrow> snd (copy_plane_sizes r (fmt, u) i k) = u"
  by (induction k arbitrary: fmt u i) auto

lemma copy_plane_sizes_result:
  assumes "copy_plane_sizes r (fmt, u) i k = (fmt', u')"
  shows "width fmt' = width fmt \<and> height fmt' = height fmt \<and> pixelformat fmt' = pixelformat fmt
   \<and> field fmt' = field fmt \<and> num_planes fmt' = num_planes fmt
   \<and> (\<forall>j. i \<le> j \<and> j < i + k \<and> j < VIDEO_MAX_PLANES \<longrightarrow>
         plane_size fmt' j = mp_plane_sizeimage r j)
   \<and> (i + k \<le> VIDEO_MAX_PLANES \<longrightarrow> u' = u)"
  using copy_plane_sizes_fields [of r fmt u i k] copy_plane_sizes_inside [of i _ k r fmt u]
    copy_plane_sizes_in_bounds [of i k r fmt u] assms
  by simp

lemma get_format_open:
  "is_open w handle \<Longrightarrow>
   libmedia_get_format w handle (Some x) = (0, Some (format (g_devices w (nat handle))), w)"
  by (simp add: libmedia_get_format_def find_device_open)

lemma is_open_dev_update:
  "is_open w handle \<Longrightarrow> fd (f (g_devices w d)) = fd (g_devices w d) \<Longrightarrow>
   is_open (dev_update d f w) handle"
  by (auto simp: is_open_def dev_update_def)

text \<open>
  C9. When \<open>libmedia_set_format_mp\<close> returns 0 the hardware accepted a format \<open>r\<close>, and
  the format cached on the device (which is also the one written back to the caller)
  carries the accepted width, height, pixel format, field and plane count and, for every
  plane below that count that the plane arrays can hold, the accepted plane size; the
  device is marked multi-planar. With at most \<open>VIDEO_MAX_PLANES\<close> accepted planes no
  access leaves the arrays. Afterwards \<open>libmedia_get_format\<close> and
  \<open>libmedia_get_format_mp\<close> return 0 and this cached format and leave the whole state,
  the trace of system calls included, as it is.
\<close>

theorem set_format_mp_caches_accepted:
  assumes run: "libmedia_set_format_mp K w handle fmt_arg = (0, fmt', w')"
  shows "\<exists>fmt r w1.
           fmt_arg = Some fmt \<and> is_open w handle
         \<and> xioctl K (k_s_fmt_mp K) w (fd (g_devices w (nat handle)))
              (VIDIOC_S_FMT V4L2_BUF_TYPE_VIDEO_CAPTURE_MPLANE
                 (width fmt) (height fmt) (pixelformat fmt) (field fmt)) = (Inr r, w1)
         \<and> fmt' = Some (format (g_devices w' (nat handle)))
         \<and> use_multiplanar (g_devices w' (nat handle)) = 1
         \<and> width (format (g_devices w' (nat handle))) = mp_width r
         \<and> height (format (g_devices w' (nat handle))) = mp_height r
         \<and> pixelformat (format (g_devices w' (nat handle))) = mp_pixelformat r
         \<and> field (format (g_devices w' (nat handle))) = mp_field r
         \<and> num_planes (format (g_devices w' (nat handle))) = ucast (mp_num_planes r)
         \<and> (\<forall>i. i < unat (mp_num_planes r) \<and> i < VIDEO_MAX_PLANES \<longrightarrow>
               plane_size (format (g_devices w' (nat handle))) i = mp_plane_sizeimage r i)
         \<and> (unat (mp_num_planes r) \<le> VIDEO_MAX_PLANES \<longrightarrow> ub w' = ub w)
         \<and> (\<forall>x. libmedia_get_format w' handle (Some x) =
                  (0, Some (format (g_devices w' (nat handle))), w'))
         \<and> (\<forall>x. libmedia_get_format_mp w' handle (Some x) =
                  (0, Some (format (g_devices w' (nat handle))), w'))"
proof -
  obtain dev w0 where fd0: "find_device w handle = (dev, w0)" by (cases "find_device w handle")
  from run fd0 obtain d fmt where d: "dev = Some d" and fmt: "fmt_arg = Some fmt"
    by (auto simp: libmedia_set_format_mp_def split: option.splits)
  from find_device_Some [OF fd0 [unfolded d]]
  have w0: "w0 = w" and dn: "d = nat handle" and op: "is_open w handle" by simp_all
  let ?req = "VIDIOC_S_FMT V4L2_BUF_TYPE_VIDEO_CAPTURE_MPLANE
                 (width fmt) (height fmt) (pixelformat fmt) (field fmt)"
  obtain a w1 where x: "xioctl K (k_s_fmt_mp K) w (fd (g_devices w d)) ?req = (a, w1)"
    by (cases "xioctl K (k_s_fmt_mp K) w (fd (g_devices w d)) ?req")
  note fr = xioctl_fields' [OF x]
  from run fd0 d fmt w0 x obtain r where a: "a = Inr r"
    by (cases a) (auto simp: libmedia_set_format_mp_def)
  let ?f0 = "fmt\<lparr>width := mp_width r, height := mp_height r, pixelformat := mp_pixelformat r,
                    field := mp_field r, num_planes := ucast (mp_num_planes r)\<rparr>"
  obtain c u where cp: "copy_plane_sizes r (?f0, ub w1) 0 (unat (mp_num_planes r)) = (c, u)"
    by (cases "copy_plane_sizes r (?f0, ub w1) 0 (unat (mp_num_planes r))")
  from run fd0 d fmt w0 x a cp
  have res: "fmt' = Some c"
       "w' = dev_update d (\<lambda>c'. c'\<lparr>format := c, use_multiplanar := 1\<rparr>) (w1\<lparr>ub := u\<rparr>)"
    by (auto simp: libmedia_set_format_mp_def)
  have cached: "format (g_devices w' d) = c" "use_multiplanar (g_devices w' d) = 1"
    using res by (simp_all add: dev_update_def)
  have ubw: "unat (mp_num_planes r) \<le> VIDEO_MAX_PLANES \<Longrightarrow> ub w' = ub w"
    using copy_plane_sizes_result [OF cp] res fr by (simp add: dev_update_def)
  have op': "is_open w' handle"
    using op res fr by (simp add: is_open_def dev_update_def dn)
  note cps = copy_plane_sizes_result [OF cp]
  show ?thesis
    apply (rule exI [of _ fmt], rule exI [of _ r], rule exI [of _ w1])
    using fmt op x a res(1) cached cps ubw get_format_open [OF op']
    by (simp add: dn libmedia_get_format_mp_def)
qed

lemma set_format_mp_open:
  assumes "is_open w handle"
    and "xioctl K (k_s_fmt_mp K) w (fd (g_devices w (nat handle)))
           (VIDIOC_S_FMT V4L2_BUF_TYPE_VIDEO_CAPTURE_MPLANE
              (width fmt) (height fmt) (pixelformat fmt) (field fmt)) = (Inr r, w1)"
    and "copy_plane_sizes r
           (fmt\<lparr>width := mp_width r, height := mp_height r, pixelformat := mp_pixelformat r,
                 field := mp_field r, num_planes := ucast (mp_num_planes r)\<rparr>, ub w1)
           0 (unat (mp_num_planes r)) = (c, u)"
  shows "libmedia_set_format_mp K w handle (Some fmt) =
           (0, Some c,
            dev_update (nat handle) (\<lambda>c'. c'\<lparr>format := c, use_multiplanar := 1\<rparr>)
              (w1\<lparr>ub := u\<rparr>))"
  using assms by (simp add: libmedia_set_format_mp_def find_device_open)

lemma set_format_mp_example:
  "libmedia_set_format_mp idle_kernel opened_world 0 (Some yuyv_request) =
     (0, Some accepted_format,
      dev_update 0 (\<lambda>c. c\<lparr>format := accepted_format, use_multiplanar := 1\<rparr>)
        (record_call (Sys_ioctl 3 (VIDIOC_S_FMT V4L2_BUF_TYPE_VIDEO_CAPTURE_MPLANE
                                     640 480 1448695129 1)) opened_world))"
proof -
  let ?w1 = "record_call (Sys_ioctl 3 (VIDIOC_S_FMT V4L2_BUF_TYPE_VIDEO_CAPTURE_MPLANE
                                     640 480 1448695129 1)) opened_world"
  have x: "xioctl idle_kernel (k_s_fmt_mp idle_kernel) opened_world
             (fd (g_devices opened_world (nat 0)))
             (VIDIOC_S_FMT V4L2_BUF_TYPE_VIDEO_CAPTURE_MPLANE (width yuyv_request)
                (height yuyv_request) (pixelformat yuyv_request) (field yuyv_request)) =
           (Inr mp_reply, ?w1)"
    by (simp add: xioctl_uninterrupted interrupted_def idle_kernel_def opened_world_def
        video0_def yuyv_request_def)
  have n: "unat (mp_num_planes mp_reply) = Suc (Suc 0)" by (simp add: mp_reply_def)
  have u: "ub ?w1 = False" by (simp add: record_call_def opened_world_def)
  have c: "copy_plane_sizes mp_reply
             (yuyv_request\<lparr>width := mp_width mp_reply, height := mp_height mp_reply,
                pixelformat := mp_pixelformat mp_reply, field := mp_field mp_reply,
                num_planes := ucast (mp_num_planes mp_reply)\<rparr>, ub ?w1)
             0 (unat (mp_num_planes mp_reply)) = (accepted_format, False)"
    unfolding n u
    by (simp add: VIDEO_MAX_PLANES_def)
       (simp add: mp_reply_def yuyv_request_def accepted_format_def fun_eq_iff)
  have e: "?w1\<lparr>ub := False\<rparr> = ?w1" by (simp add: record_call_def opened_world_def)
  show ?thesis
    using set_format_mp_open [OF is_open_opened_world x c] by (simp add: e)
qed

theorem set_format_mp_caches_accepted_witness:
  "libmedia_set_format_mp idle_kernel opened_world 0 (Some yuyv_request) =
     (0, Some accepted_format,
      dev_update 0 (\<lambda>c. c\<lparr>format := accepted_format, use_multiplanar := 1\<rparr>)
        (record_call (Sys_ioctl 3 (VIDIOC_S_FMT V4L2_BUF_TYPE_VIDEO_CAPTURE_MPLANE
                                     640 480 1448695129 1)) opened_world))
   \<and> libmedia_get_format
         (dev_update 0 (\<lambda>c. c\<lparr>format := accepted_format, use_multiplanar := 1\<rparr>)
            (record_call (Sys_ioctl 3 (VIDIOC_S_FMT V4L2_BUF_TYPE_VIDEO_CAPTURE_MPLANE
                                     640 480 1448695129 1)) opened_world))
         0 (Some yuyv_request) =
       (0, Some accepted_format,
        dev_update 0 (\<lambda>c. c\<lparr>format := accepted_format, use_multiplanar := 1\<rparr>)
          (record_call (Sys_ioctl 3 (VIDIOC_S_FMT V4L2_BUF_TYPE_VIDEO_CAPTURE_MPLANE
                                     640 480 1448695129 1)) opened_world))"
proof -
  let ?W = "dev_update 0 (\<lambda>c. c\<lparr>format := accepted_format, use_multiplanar := 1\<rparr>)
            (record_call (Sys_ioctl 3 (VIDIOC_S_FMT V4L2_BUF_TYPE_VIDEO_CAPTURE_MPLANE
                                     640 480 1448695129 1)) opened_world)"
  from set_format_mp_caches_accepted [OF set_format_mp_example]
  have "\<forall>x. libmedia_get_format ?W 0 (Some x) = (0, Some (format (g_devices ?W (nat 0))), ?W)"
    by blast
  then have "libmedia_get_format ?W 0 (Some yuyv_request) =
               (0, Some (format (g_devices ?W (nat 0))), ?W)"
    by (rule spec)
  moreover have "format (g_devices ?W (nat 0)) = accepted_format"
    by (simp add: dev_update_def)
  ultimately show ?thesis
    using set_format_mp_example by simp
qed

section \<open>Freeing the pool\<close>

lemma settled_buf_iff:
  "settled_buf w bp i =
     (case pool_read w (Some bp) i of
        None \<Rightarrow> ub w
      | Some b \<Rightarrow> (\<forall>q < nat (buf_num_planes b). settled w bp i q))"
  by (auto simp: settled_buf_def list_all_iff split: option.splits)

lemma ub_again: "ub w \<Longrightarrow> w\<lparr>ub := True\<rparr> = w"
  by (cases w) simp

lemma unmap_plane_fields [simp]:
  "g_devices (unmap_plane w bp i p) = g_devices w"
  "g_device_count (unmap_plane w bp i p) = g_device_count w"
  "g_initialized (unmap_plane w bp i p) = g_initialized w"
  "g_last_error (unmap_plane w bp i p) = g_last_error w"
  "signals (unmap_plane w bp i p) = signals w"
  by (simp_all add: unmap_plane_def pool_write_def sys_munmap_def record_call_def
      split: option.splits vptr.splits)

lemma free_planes_fields [simp]:
  "g_devices (free_planes w bp i p k) = g_devices w"
  "g_device_count (free_planes w bp i p k) = g_device_count w"
  "g_initialized (free_planes w bp i p k) = g_initialized w"
  "g_last_error (free_planes w bp i p k) = g_last_error w"
  "signals (free_planes w bp i p k) = signals w"
  by (induction k arbitrary: w p; simp)+

lemma free_all_fields [simp]:
  "g_devices (free_all w bp i k) = g_devices w"
  "g_device_count (free_all w bp i k) = g_device_count w"
  "g_initialized (free_all w bp i k) = g_initialized w"
  "g_last_error (free_all w bp i k) = g_last_error w"
  "signals (free_all w bp i k) = signals w"
  by (induction k arbitrary: w i; simp split: option.splits)+

lemma unmap_plane_trace:
  "\<exists>us. trace (unmap_plane w bp i p) = trace w @ us \<and> list_all is_munmap us"
  by (auto simp: unmap_plane_def pool_write_def sys_munmap_def record_call_def is_munmap_def
      split: option.splits vptr.splits)

lemma free_planes_trace:
  "\<exists>us. trace (free_planes w bp i p k) = trace w @ us \<and> list_all is_munmap us"
proof (induction k arbitrary: w p)
  case 0
  show ?case by simp
next
  case (Suc k)
  obtain us where us: "trace (unmap_plane w bp i p) = trace w @ us" "list_all is_munmap us"
    using unmap_plane_trace by blast
  obtain vs where vs: "trace (free_planes (unmap_plane w bp i p) bp i (Suc p) k) =
                         trace (unmap_plane w bp i p) @ vs" "list_all is_munmap vs"
    using Suc.IH by blast
  have "trace (free_planes w bp i p (Suc k)) = trace w @ (us @ vs)" "list_all is_munmap (us @ vs)"
    using us vs by simp_all
  then show ?case by blast
qed

lemma free_all_trace:
  "\<exists>us. trace (free_all w bp i k) = trace w @ us \<and> list_all is_munmap us"
proof (induction k arbitrary: w i)
  case 0
  show ?case by simp
next
  case (Suc k)
  define w1 where "w1 = (case pool_read w (Some bp) i of
                           None \<Rightarrow> w\<lparr>ub := True\<rparr>
                         | Some b \<Rightarrow> free_planes w bp i 0 (nat (buf_num_planes b)))"
  have step: "free_all w bp i (Suc k) = free_all w1 bp (Suc i) k"
    by (simp add: w1_def split: option.splits)
  have "\<exists>us. trace w1 = trace w @ us \<and> list_all is_munmap us"
  proof (cases "pool_read w (Some bp) i")
    case None
    then show ?thesis by (simp add: w1_def)
  next
    case (Some b)
    then show ?thesis
      using free_planes_trace [of w bp i 0 "nat (buf_num_planes b)"] by (simp add: w1_def)
  qed
  then obtain us where us: "trace w1 = trace w @ us" "list_all is_munmap us"
    by blast
  obtain vs where vs: "trace (free_all w1 bp (Suc i) k) = trace w1 @ vs" "list_all is_munmap vs"
    using Suc.IH by blast
  have "trace (free_all w bp i (Suc k)) = trace w @ (us @ vs)" "list_all is_munmap (us @ vs)"
    using us vs step by simp_all
  then show ?case by blast
qed

lemma pool_read_ub [simp]: "pool_read (w\<lparr>ub := u\<rparr>) p i = pool_read w p i"
  by (simp add: pool_read_def split: option.splits)

lemma pool_read_pool_write:
  "pool_read (pool_write w bp i f) (Some bp) j =
     (case pool_read w (Some bp) i of
        None \<Rightarrow> pool_read w (Some bp) j
      | Some b \<Rightarrow> if j = i then Some (f b) else pool_read w (Some bp) j)"
proof (cases "heap w bp")
  case None
  then show ?thesis by (simp add: pool_read_def pool_write_def)
next
  case (Some arr)
  then show ?thesis by (simp add: pool_read_def pool_write_def)
qed

lemma ub_pool_write: "ub (pool_write w bp i f) = (ub w \<or> pool_read w (Some bp) i = None)"
proof (cases "heap w bp")
  case None
  then show ?thesis by (simp add: pool_read_def pool_write_def)
next
  case (Some arr)
  then show ?thesis by (simp add: pool_read_def pool_write_def)
qed

lemma sys_munmap_fields [simp]:
  "pool_read (sys_munmap w a len) p i = pool_read w p i"
  "ub (sys_munmap w a len) = ub w"
  "heap (sys_munmap w a len) = heap w"
  by (simp_all add: sys_munmap_def record_call_def pool_read_def split: option.splits)

lemma unmap_plane_read:
  "pool_read (unmap_plane w bp i p) (Some bp) j =
     (case pool_read w (Some bp) i of
        None \<Rightarrow> pool_read w (Some bp) j
      | Some b \<Rightarrow>
          if j = i \<and> p < VIDEO_MAX_PLANES \<and> start b p \<noteq> NULL \<and> start b p \<noteq> MAP_FAILED
          then Some (b\<lparr>start := (start b)(p := NULL)\<rparr>)
          else pool_read w (Some bp) j)"
proof (cases "pool_read w (Some bp) i")
  case None
  then show ?thesis by (simp add: unmap_plane_def)
next
  case (Some b)
  show ?thesis
  proof (cases "start b p")
    case NULL
    then show ?thesis using Some by (simp add: unmap_plane_def)
  next
    case MAP_FAILED
    then show ?thesis using Some by (simp add: unmap_plane_def)
  next
    case (Addr a)
    then show ?thesis using Some by (simp add: unmap_plane_def pool_read_pool_write)
  qed
qed

lemma unmap_plane_ub_eq:
  "ub (unmap_plane w bp i p) =
     (ub w \<or> pool_read w (Some bp) i = None \<or> \<not> p < VIDEO_MAX_PLANES)"
proof (cases "pool_read w (Some bp) i")
  case None
  then show ?thesis by (simp add: unmap_plane_def)
next
  case (Some b)
  show ?thesis
  proof (cases "start b p")
    case NULL
    then show ?thesis using Some by (simp add: unmap_plane_def)
  next
    case MAP_FAILED
    then show ?thesis using Some by (simp add: unmap_plane_def)
  next
    case (Addr a)
    then show ?thesis using Some by (simp add: unmap_plane_def ub_pool_write)
  qed
qed

lemma settled_fix: "settled w bp i p \<Longrightarrow> unmap_plane w bp i p = w"
proof (cases "pool_read w (Some bp) i")
  case None
  assume "settled w bp i p"
  then show ?thesis using None by (simp add: settled_def unmap_plane_def ub_again)
next
  case (Some b)
  assume "settled w bp i p"
  then show ?thesis using Some
    by (cases "start b p") (simp_all add: settled_def unmap_plane_def ub_again split: if_splits)
qed

lemma unmap_plane_ub: "ub w \<Longrightarrow> ub (unmap_plane w bp i p)"
  by (simp add: unmap_plane_ub_eq)

lemma unmap_plane_settles: "settled (unmap_plane w bp i p) bp i p"
proof (cases "pool_read w (Some bp) i")
  case None
  then show ?thesis by (simp add: settled_def unmap_plane_read unmap_plane_ub_eq)
next
  case (Some b)
  then show ?thesis
    by (cases "start b p") (simp_all add: settled_def unmap_plane_read unmap_plane_ub_eq)
qed

lemma unmap_plane_keeps:
  assumes "settled w bp i p"
  shows "settled (unmap_plane w bp i' p') bp i p"
proof (cases "pool_read w (Some bp) i'")
  case None
  then show ?thesis
    using assms
    by (cases "pool_read w (Some bp) i")
       (simp_all add: settled_def unmap_plane_read unmap_plane_ub_eq)
next
  case b': (Some b')
  show ?thesis
  proof (cases "pool_read w (Some bp) i")
    case None
    then show ?thesis
      using assms b' by (auto simp: settled_def unmap_plane_read unmap_plane_ub_eq)
  next
    case (Some b)
    then show ?thesis
      using assms b'
      by (cases "start b p")
         (auto simp: settled_def unmap_plane_read unmap_plane_ub_eq split: if_splits)
  qed
qed

lemma unmap_plane_shape:
  "map_option buf_num_planes (pool_read (unmap_plane w bp i p) (Some bp) j) =
   map_option buf_num_planes (pool_read w (Some bp) j)"
  by (cases "pool_read w (Some bp) i") (auto simp: unmap_plane_read)

lemma free_planes_ub: "ub w \<Longrightarrow> ub (free_planes w bp i p k)"
  by (induction k arbitrary: w p) (simp_all add: unmap_plane_ub)

lemma free_planes_keeps: "settled w bp i' q \<Longrightarrow> settled (free_planes w bp i p k) bp i' q"
  by (induction k arbitrary: w p) (simp_all add: unmap_plane_keeps)

lemma free_planes_settles:
  "p \<le> q \<Longrightarrow> q < p + k \<Longrightarrow> settled (free_planes w bp i p k) bp i q"
proof (induction k arbitrary: w p)
  case 0
  then show ?case by simp
next
  case (Suc k)
  show ?case
  proof (cases "q = p")
    case True
    then show ?thesis by (simp add: free_planes_keeps unmap_plane_settles)
  next
    case False
    then have "Suc p \<le> q" "q < Suc p + k" using Suc.prems by simp_all
    from Suc.IH [OF this] show ?thesis by simp
  qed
qed

lemma free_planes_fix:
  "(\<forall>q. p \<le> q \<and> q < p + k \<longrightarrow> settled w bp i q) \<Longrightarrow> free_planes w bp i p k = w"
  by (induction k arbitrary: p) (simp_all add: settled_fix)

lemma free_planes_shape:
  "map_option buf_num_planes (pool_read (free_planes w bp i p k) (Some bp) j) =
   map_option buf_num_planes (pool_read w (Some bp) j)"
  by (induction k arbitrary: w p) (simp_all add: unmap_plane_shape)

lemma settled_buf_fix:
  "settled_buf w bp i \<Longrightarrow>
   (case pool_read w (Some bp) i of
      None \<Rightarrow> w\<lparr>ub := True\<rparr>
    | Some b \<Rightarrow> free_planes w bp i 0 (nat (buf_num_planes b))) = w"
  by (auto simp: settled_buf_iff ub_again free_planes_fix split: option.splits)

lemma unmap_plane_keeps_buf:
  "settled_buf w bp j \<Longrightarrow> settled_buf (unmap_plane w bp i p) bp j"
proof -
  assume s: "settled_buf w bp j"
  show ?thesis
  proof (cases "pool_read w (Some bp) j")
    case None
    then have "pool_read (unmap_plane w bp i p) (Some bp) j = None"
      using unmap_plane_shape [of w bp i p j] by simp
    then show ?thesis
      using s None by (simp add: settled_buf_iff unmap_plane_ub)
  next
    case (Some b)
    then obtain b' where b': "pool_read (unmap_plane w bp i p) (Some bp) j = Some b'"
        "buf_num_planes b' = buf_num_planes b"
      using unmap_plane_shape [of w bp i p j] by (auto simp: map_option_case split: option.splits)
    then show ?thesis
      using s Some by (simp add: settled_buf_iff unmap_plane_keeps)
  qed
qed

lemma free_planes_keeps_buf:
  "settled_buf w bp j \<Longrightarrow> settled_buf (free_planes w bp i p k) bp j"
  by (induction k arbitrary: w p) (simp_all add: unmap_plane_keeps_buf)

lemma free_planes_settles_buf:
  "pool_read w (Some bp) i = Some b \<Longrightarrow>
   settled_buf (free_planes w bp i 0 (nat (buf_num_planes b))) bp i"
proof -
  assume r: "pool_read w (Some bp) i = Some b"
  let ?w = "free_planes w bp i 0 (nat (buf_num_planes b))"
  obtain b' where b': "pool_read ?w (Some bp) i = Some b'" "buf_num_planes b' = buf_num_planes b"
    using free_planes_shape [of w bp i 0 "nat (buf_num_planes b)" i] r
    by (auto simp: map_option_case split: option.splits)
  then show ?thesis
    by (simp add: settled_buf_iff free_planes_settles)
qed

lemma free_all_step: "free_all w bp i (Suc k) = free_all (free_buffer w bp i) bp (Suc i) k"
  by (simp add: free_buffer_def split: option.splits)

lemma settled_buf_ub: "settled_buf w bp j \<Longrightarrow> settled_buf (w\<lparr>ub := True\<rparr>) bp j"
  by (auto simp: settled_buf_iff settled_def split: option.splits)

lemma free_buffer_settles: "settled_buf (free_buffer w bp i) bp i"
proof (cases "pool_read w (Some bp) i")
  case None
  then show ?thesis by (simp add: free_buffer_def settled_buf_iff)
next
  case (Some b)
  then show ?thesis by (simp add: free_buffer_def free_planes_settles_buf)
qed

lemma free_buffer_keeps: "settled_buf w bp j \<Longrightarrow> settled_buf (free_buffer w bp i) bp j"
  by (cases "pool_read w (Some bp) i")
     (simp_all add: free_buffer_def settled_buf_ub free_planes_keeps_buf)

lemma free_buffer_fix: "settled_buf w bp i \<Longrightarrow> free_buffer w bp i = w"
  using settled_buf_fix by (simp add: free_buffer_def)

lemma free_all_keeps: "settled_buf w bp j \<Longrightarrow> settled_buf (free_all w bp i k) bp j"
proof (induction k arbitrary: w i)
  case 0
  then show ?case by simp
next
  case (Suc k)
  then show ?case unfolding free_all_step by (simp add: free_buffer_keeps)
qed

lemma free_all_settles:
  "i \<le> j \<Longrightarrow> j < i + k \<Longrightarrow> settled_buf (free_all w bp i k) bp j"
proof (induction k arbitrary: w i)
  case 0
  then show ?case by simp
next
  case (Suc k)
  show ?case
  proof (cases "j = i")
    case True
    then show ?thesis unfolding free_all_step by (simp add: free_all_keeps free_buffer_settles)
  next
    case False
    then have "Suc i \<le> j" "j < Suc i + k" using Suc.prems by simp_all
    from Suc.IH [OF this] show ?thesis unfolding free_all_step .
  qed
qed

lemma free_all_fix:
  "(\<forall>j. i \<le> j \<and> j < i + k \<longrightarrow> settled_buf w bp j) \<Longrightarrow> free_all w bp i k = w"
proof (induction k arbitrary: i)
  case 0
  then show ?case by simp
next
  case (Suc k)
  have "free_buffer w bp i = w" using Suc.prems by (simp add: free_buffer_fix)
  then show ?case unfolding free_all_step using Suc by simp
qed

lemma settled_buf_dev_update [simp]: "settled_buf (dev_update d f w) bp j = settled_buf w bp j"
  by (simp add: settled_buf_iff settled_def pool_read_def dev_update_def split: option.splits)

lemma free_buffers_open:
  "is_open w handle \<Longrightarrow> 0 < n \<Longrightarrow>
   libmedia_free_buffers w handle (Some bp) n =
     (0, dev_update (nat handle) (\<lambda>c. c\<lparr>buffers := None, buffer_count := 0\<rparr>)
           (free_all w bp 0 (nat n)))"
  by (simp add: libmedia_free_buffers_def find_device_open)

lemma free_buffers_rejected:
  "\<not> is_open w handle \<or> bufs = None \<or> n \<le> 0 \<Longrightarrow>
   libmedia_free_buffers w handle bufs n = (- 1, set_last_error MEDIA_ERROR_INVALID_PARAM w)"
  by (auto simp: libmedia_free_buffers_def find_device_def is_open_def set_last_error_def
      split: option.splits)

lemma is_open_last_error [simp]: "is_open (set_last_error e w) handle = is_open w handle"
  by (simp add: is_open_def set_last_error_def)

lemma dev_update_twice:
  "dev_update d (\<lambda>c. c\<lparr>buffers := None, buffer_count := 0\<rparr>)
     (dev_update d (\<lambda>c. c\<lparr>buffers := None, buffer_count := 0\<rparr>) w) =
   dev_update d (\<lambda>c. c\<lparr>buffers := None, buffer_count := 0\<rparr>) w"
  by (simp add: dev_update_def)

text \<open>
  C5. Running \<open>libmedia_free_buffers\<close> a second time with the same arguments returns
  what the first call returned and leaves the whole state as the first call left it: no
  further \<open>munmap\<close> is issued, the set of mappings and the array are unchanged. A plane the
  first call released is a null pointer for the second call, which skips it.
\<close>

theorem free_buffers_idempotent:
  assumes "libmedia_free_buffers w handle bufs n = (r, w1)"
  shows "libmedia_free_buffers w1 handle bufs n = (r, w1)"
proof (cases "is_open w handle \<and> bufs \<noteq> None \<and> 0 < n")
  case True
  then obtain bp where bp: "bufs = Some bp" by auto
  let ?f = "\<lambda>c. c\<lparr>buffers := None, buffer_count := 0\<rparr>"
  have first: "r = 0" "w1 = dev_update (nat handle) ?f (free_all w bp 0 (nat n))"
    using assms True bp by (simp_all add: free_buffers_open)
  have op1: "is_open w1 handle"
    using True first by (simp add: is_open_def dev_update_def)
  have "\<forall>j. 0 \<le> j \<and> j < 0 + nat n \<longrightarrow> settled_buf w1 bp j"
    using first by (simp add: free_all_settles)
  then have "free_all w1 bp 0 (nat n) = w1" by (rule free_all_fix)
  then have "libmedia_free_buffers w1 handle (Some bp) n = (0, dev_update (nat handle) ?f w1)"
    using op1 True by (simp add: free_buffers_open)
  then show ?thesis
    using first bp by (simp add: dev_update_twice)
next
  case False
  then have rej: "\<not> is_open w handle \<or> bufs = None \<or> n \<le> 0" by auto
  have first: "r = - 1" "w1 = set_last_error MEDIA_ERROR_INVALID_PARAM w"
    using assms free_buffers_rejected [OF rej] by simp_all
  have "\<not> is_open w1 handle \<or> bufs = None \<or> n \<le> 0"
    using rej first by simp
  from free_buffers_rejected [OF this] show ?thesis
    using first by (simp add: set_last_error_def)
qed

lemma free_example:
  "fst (libmedia_free_buffers streaming_world 0 (Some 100) 2) = 0
   \<and> mapped (snd (libmedia_free_buffers streaming_world 0 (Some 100) 2)) = []
   \<and> trace (snd (libmedia_free_buffers streaming_world 0 (Some 100) 2)) =
       [Sys_open ''/dev/video0'', Sys_munmap 4096 614400, Sys_munmap 8192 614400]
   \<and> streaming (g_devices (snd (libmedia_free_buffers streaming_world 0 (Some 100) 2)) 0) = 1
   \<and> buffers (g_devices (snd (libmedia_free_buffers streaming_world 0 (Some 100) 2)) 0) = None"
proof -
  have o: "is_open streaming_world 0" by (rule is_open_streaming_world)
  have e: "libmedia_free_buffers streaming_world 0 (Some 100) 2 =
     (0, dev_update 0 (\<lambda>c. c\<lparr>buffers := None, buffer_count := 0\<rparr>)
           (free_all streaming_world 100 0 2))"
    using free_buffers_open [OF o, of 2 100] by simp
  show ?thesis
    unfolding e
    by (simp add: numeral_2_eq_2 dev_update_def free_buffer_def free_all_step pool_read_def
        unmap_plane_def pool_write_def sys_munmap_def record_call_def streaming_world_def
        pool_buffer_def video0_def VIDEO_MAX_PLANES_def)
qed

theorem free_buffers_idempotent_witness:
  "fst (libmedia_free_buffers streaming_world 0 (Some 100) 2) = 0
   \<and> mapped (snd (libmedia_free_buffers streaming_world 0 (Some 100) 2)) = []
   \<and> libmedia_free_buffers (snd (libmedia_free_buffers streaming_world 0 (Some 100) 2))
        0 (Some 100) 2 =
      libmedia_free_buffers streaming_world 0 (Some 100) 2"
proof -
  have "libmedia_free_buffers streaming_world 0 (Some 100) 2 =
          (fst (libmedia_free_buffers streaming_world 0 (Some 100) 2),
           snd (libmedia_free_buffers streaming_world 0 (Some 100) 2))"
    by simp
  from free_buffers_idempotent [OF this] show ?thesis
    using free_example by (simp add: prod_eq_iff)
qed

section \<open>Order of the streaming transitions\<close>

lemma start_streaming_open:
  "is_open w handle \<Longrightarrow>
   libmedia_start_streaming K w handle =
     (case xioctl K (k_streamon K) w (fd (g_devices w (nat handle)))
             (VIDIOC_STREAMON V4L2_BUF_TYPE_VIDEO_CAPTURE) of
        (Inl e, w1) \<Rightarrow> (- 1, set_last_error MEDIA_ERROR_STREAMING_ERROR w1)
      | (Inr u, w1) \<Rightarrow> (0, dev_update (nat handle) (\<lambda>c. c\<lparr>streaming := 1\<rparr>) w1))"
  by (simp add: libmedia_start_streaming_def find_device_open)

lemma start_streaming_mp_open:
  "is_open w handle \<Longrightarrow>
   libmedia_start_streaming_mp K w handle =
     (case xioctl K (k_streamon K) w (fd (g_devices w (nat handle)))
             (VIDIOC_STREAMON V4L2_BUF_TYPE_VIDEO_CAPTURE_MPLANE) of
        (Inl e, w1) \<Rightarrow> (- 1, set_last_error MEDIA_ERROR_STREAMING_ERROR w1)
      | (Inr u, w1) \<Rightarrow> (0, dev_update (nat handle) (\<lambda>c. c\<lparr>streaming := 1\<rparr>) w1))"
  by (simp add: libmedia_start_streaming_mp_def find_device_open)

text \<open>
  C7, as the code has it. The library keeps no state check on these transitions. On an
  open device, with or without a pool, \<open>libmedia_start_streaming\<close> and
  \<open>libmedia_start_streaming_mp\<close> return 0 and set the streaming flag exactly when the
  hardware accepts \<open>VIDIOC_STREAMON\<close>; otherwise they return -1 with
  \<open>MEDIA_ERROR_STREAMING_ERROR\<close> and leave the flag. \<open>libmedia_free_buffers\<close> with a
  non-null array and a positive count returns 0 and clears the recorded pool whether or
  not the device is streaming, and leaves the streaming flag as it was.
\<close>

theorem streaming_order_unchecked:
  assumes "is_open w handle"
    and "(go = libmedia_start_streaming \<and> ty = V4L2_BUF_TYPE_VIDEO_CAPTURE) \<or>
         (go = libmedia_start_streaming_mp \<and> ty = V4L2_BUF_TYPE_VIDEO_CAPTURE_MPLANE)"
  shows "(fst (go K w handle) = 0) =
           (\<exists>u w1. xioctl K (k_streamon K) w (fd (g_devices w (nat handle)))
                      (VIDIOC_STREAMON ty) = (Inr u, w1))
       \<and> (fst (go K w handle) = 0 \<longrightarrow>
            streaming (g_devices (snd (go K w handle)) (nat handle)) = 1)
       \<and> (fst (go K w handle) \<noteq> 0 \<longrightarrow>
            fst (go K w handle) = - 1 \<and>
            g_last_error (snd (go K w handle)) = MEDIA_ERROR_STREAMING_ERROR \<and>
            g_devices (snd (go K w handle)) = g_devices w)
       \<and> (0 < n \<longrightarrow>
            fst (libmedia_free_buffers w handle (Some bp) n) = 0 \<and>
            streaming (g_devices (snd (libmedia_free_buffers w handle (Some bp) n)) (nat handle))
              = streaming (g_devices w (nat handle)) \<and>
            buffers (g_devices (snd (libmedia_free_buffers w handle (Some bp) n)) (nat handle))
              = None \<and>
            buffer_count (g_devices (snd (libmedia_free_buffers w handle (Some bp) n)) (nat handle))
              = 0)"
proof -
  let ?x = "xioctl K (k_streamon K) w (fd (g_devices w (nat handle))) (VIDIOC_STREAMON ty)"
  obtain a w1 where x: "?x = (a, w1)" by (cases ?x)
  note fr = xioctl_fields' [OF x]
  have st: "go K w handle =
     (case a of Inl e \<Rightarrow> (- 1, set_last_error MEDIA_ERROR_STREAMING_ERROR w1)
      | Inr u \<Rightarrow> (0, dev_update (nat handle) (\<lambda>c. c\<lparr>streaming := 1\<rparr>) w1))"
    using assms x by (auto simp: start_streaming_open start_streaming_mp_open)
  have a: "(fst (go K w handle) = 0) = (\<exists>u w1. ?x = (Inr u, w1))"
    using st x by (cases a) simp_all
  have b: "fst (go K w handle) = 0 \<longrightarrow>
            streaming (g_devices (snd (go K w handle)) (nat handle)) = 1"
    using st by (cases a) (simp_all add: dev_update_def)
  have c: "fst (go K w handle) \<noteq> 0 \<longrightarrow>
            fst (go K w handle) = - 1 \<and>
            g_last_error (snd (go K w handle)) = MEDIA_ERROR_STREAMING_ERROR \<and>
            g_devices (snd (go K w handle)) = g_devices w"
    using st fr by (cases a) (simp_all add: set_last_error_def)
  have d: "0 < n \<longrightarrow>
            fst (libmedia_free_buffers w handle (Some bp) n) = 0 \<and>
            streaming (g_devices (snd (libmedia_free_buffers w handle (Some bp) n)) (nat handle))
              = streaming (g_devices w (nat handle)) \<and>
            buffers (g_devices (snd (libmedia_free_buffers w handle (Some bp) n)) (nat handle))
              = None \<and>
            buffer_count (g_devices (snd (libmedia_free_buffers w handle (Some bp) n)) (nat handle))
              = 0"
    using assms(1) by (simp add: free_buffers_open dev_update_def)
  show ?thesis using a b c d by blast
qed

lemma start_example:
  "libmedia_start_streaming idle_kernel opened_world 0 =
     (0, dev_update 0 (\<lambda>c. c\<lparr>streaming := 1\<rparr>)
           (record_call (Sys_ioctl 3 (VIDIOC_STREAMON V4L2_BUF_TYPE_VIDEO_CAPTURE)) opened_world))"
proof -
  have x: "xioctl idle_kernel (k_streamon idle_kernel) opened_world
             (fd (g_devices opened_world (nat 0))) (VIDIOC_STREAMON V4L2_BUF_TYPE_VIDEO_CAPTURE) =
           (Inr (), record_call (Sys_ioctl 3 (VIDIOC_STREAMON V4L2_BUF_TYPE_VIDEO_CAPTURE))
                      opened_world)"
    by (simp add: xioctl_uninterrupted interrupted_def idle_kernel_def opened_world_def video0_def)
  show ?thesis
    using start_streaming_open [OF is_open_opened_world, of idle_kernel] x by simp
qed

theorem streaming_order_unchecked_witness:
  "is_open opened_world 0
   \<and> fst (libmedia_start_streaming idle_kernel opened_world 0) = 0
   \<and> streaming (g_devices (snd (libmedia_start_streaming idle_kernel opened_world 0)) (nat 0)) = 1
   \<and> fst (libmedia_free_buffers opened_world 0 (Some 100) 2) = 0"
  using streaming_order_unchecked [OF is_open_opened_world,
      of libmedia_start_streaming V4L2_BUF_TYPE_VIDEO_CAPTURE idle_kernel 2 100]
    start_example is_open_opened_world
  by simp

text \<open>
  The claim as stated fails. A device that was only opened has no pool, yet
  \<open>libmedia_start_streaming\<close> succeeds and marks it streaming when the hardware accepts
  the signal, and \<open>libmedia_start_session\<close> succeeds there too. A streaming device with
  two mapped buffers has them unmapped by \<open>libmedia_free_buffers\<close>, which returns 0,
  though no stop has run: the streaming flag is still set.
\<close>

theorem streaming_order_counterexample:
  "buffers (g_devices opened_world 0) = None
   \<and> buffer_count (g_devices opened_world 0) = 0
   \<and> fst (libmedia_start_streaming idle_kernel opened_world 0) = 0
   \<and> streaming (g_devices (snd (libmedia_start_streaming idle_kernel opened_world 0)) 0) = 1
   \<and> fst (libmedia_start_session idle_kernel opened_world (Some idle_session)) = 0
   \<and> streaming (g_devices streaming_world 0) = 1
   \<and> fst (libmedia_free_buffers streaming_world 0 (Some 100) 2) = 0
   \<and> mapped streaming_world = [(4096, 614400), (8192, 614400)]
   \<and> mapped (snd (libmedia_free_buffers streaming_world 0 (Some 100) 2)) = []
   \<and> streaming (g_devices (snd (libmedia_free_buffers streaming_world 0 (Some 100) 2)) 0) = 1"
proof -
  have bc: "buffer_count (g_devices opened_world 0) = 0"
    by (simp add: opened_world_def video0_def)
  have s: "libmedia_start_session idle_kernel opened_world (Some idle_session) =
             (0, Some (idle_session\<lparr>active := 1\<rparr>),
              snd (libmedia_start_streaming idle_kernel opened_world 0))"
    by (simp add: libmedia_start_session_def idle_session_def bc start_example)
  show ?thesis
    using free_example
    by (simp add: start_example s dev_update_def)
       (simp add: opened_world_def streaming_world_def video0_def record_call_def)
qed

section \<open>Closing a device: the order of teardown\<close>

lemma pool_write_mapped [simp]:
  "mapped (pool_write w bp i g) = mapped w" "trace (pool_write w bp i g) = trace w"
  by (simp_all add: pool_write_def split: option.splits)

lemma unmap_calls_append [simp]:
  "unmap_calls [] = []" "unmap_calls (xs @ ys) = unmap_calls xs @ unmap_calls ys"
  by (simp_all add: unmap_calls_def)

lemma released_append [simp]:
  "released [] m = m" "released (xs @ ys) m = released ys (released xs m)"
  by (simp_all add: released_def)

lemma released_distinct:
  "distinct m \<Longrightarrow> distinct (released ms m) \<and> set (released ms m) = set m - set ms"
proof (induction ms arbitrary: m)
  case Nil
  then show ?case by simp
next
  case (Cons x ms)
  have r: "released (x # ms) m = released ms (remove1 x m)" by (simp add: released_def)
  have d: "distinct (remove1 x m)" using Cons.prems by simp
  have s: "set (remove1 x m) = set m - {x}" using Cons.prems by simp
  from Cons.IH [OF d] show ?case unfolding r s by auto
qed

lemma interval_step: "[p..<p + Suc k] = p # [Suc p..<Suc p + k]"
  by (simp add: upt_conv_Cons)

lemma unmap_plane_calls:
  assumes "pool_read w (Some bp) i = Some b" and "p < VIDEO_MAX_PLANES"
  shows "trace (unmap_plane w bp i p) = trace w @ unmap_calls (plane_map b p)
       \<and> mapped (unmap_plane w bp i p) = released (plane_map b p) (mapped w)"
  using assms
  by (cases "start b p")
     (simp_all add: unmap_plane_def plane_map_def unmap_calls_def released_def sys_munmap_def
       record_call_def)

lemma free_planes_calls:
  assumes "pool_read w (Some bp) i = Some b" and "\<not> ub (free_planes w bp i p k)"
  shows "trace (free_planes w bp i p k) =
           trace w @ unmap_calls (concat (map (plane_map b) [p..<p + k]))
       \<and> mapped (free_planes w bp i p k) =
           released (concat (map (plane_map b) [p..<p + k])) (mapped w)"
  using assms
proof (induction k arbitrary: w p b)
  case 0
  then show ?case by simp
next
  case (Suc k)
  let ?w1 = "unmap_plane w bp i p"
  have nub: "\<not> ub ?w1" using Suc.prems(2) free_planes_ub [of ?w1 bp i "Suc p" k] by auto
  then have p: "p < VIDEO_MAX_PLANES" by (simp add: unmap_plane_ub_eq)
  note c = unmap_plane_calls [OF Suc.prems(1) p]
  define b1 where "b1 = (if start b p \<noteq> NULL \<and> start b p \<noteq> MAP_FAILED
                         then b\<lparr>start := (start b)(p := NULL)\<rparr> else b)"
  have b1: "pool_read ?w1 (Some bp) i = Some b1"
    using Suc.prems(1) p by (simp add: unmap_plane_read b1_def)
  have same: "\<forall>q. q \<noteq> p \<longrightarrow> plane_map b1 q = plane_map b q"
    by (auto simp: b1_def plane_map_def split: vptr.splits)
  have nub2: "\<not> ub (free_planes ?w1 bp i (Suc p) k)" using Suc.prems(2) by simp
  have m: "map (plane_map b1) [Suc p..<Suc p + k] = map (plane_map b) [Suc p..<Suc p + k]"
    using same by (intro map_cong) auto
  note ih = Suc.IH [OF b1 nub2, unfolded m]
  show ?case
    unfolding interval_step using ih c by simp
qed

lemma free_planes_read_other:
  "j \<noteq> i \<Longrightarrow>
   pool_read (free_planes w bp i p k) (Some bp) j = pool_read w (Some bp) j"
  by (induction k arbitrary: w p) (simp_all add: unmap_plane_read split: option.splits)

lemma free_buffer_ub: "ub w \<Longrightarrow> ub (free_buffer w bp i)"
  by (simp add: free_buffer_def free_planes_ub split: option.splits)

lemma free_all_ub: "ub w \<Longrightarrow> ub (free_all w bp i k)"
proof (induction k arbitrary: w i)
  case 0
  then show ?case by simp
next
  case (Suc k)
  show ?case unfolding free_all_step by (rule Suc.IH) (rule free_buffer_ub [OF Suc.prems])
qed

lemma free_buffer_calls:
  assumes "\<not> ub (free_buffer w bp i)"
  shows "\<exists>b. pool_read w (Some bp) i = Some b
           \<and> trace (free_buffer w bp i) = trace w @ unmap_calls (buffer_maps b)
           \<and> mapped (free_buffer w bp i) = released (buffer_maps b) (mapped w)"
proof (cases "pool_read w (Some bp) i")
  case None
  then show ?thesis using assms by (simp add: free_buffer_def)
next
  case (Some b)
  then have "\<not> ub (free_planes w bp i 0 (nat (buf_num_planes b)))"
    using assms by (simp add: free_buffer_def)
  from free_planes_calls [OF Some this] Some show ?thesis
    by (simp add: free_buffer_def buffer_maps_def)
qed

lemma free_buffer_read_other:
  "j \<noteq> i \<Longrightarrow> pool_read (free_buffer w bp i) (Some bp) j = pool_read w (Some bp) j"
  by (simp add: free_buffer_def free_planes_read_other split: option.splits)

lemma free_all_calls:
  assumes "\<not> ub (free_all w bp i k)"
  shows "trace (free_all w bp i k) =
           trace w @ unmap_calls (concat (map (\<lambda>j. case pool_read w (Some bp) j of
                                                     None \<Rightarrow> []
                                                   | Some b \<Rightarrow> buffer_maps b) [i..<i + k]))
       \<and> mapped (free_all w bp i k) =
           released (concat (map (\<lambda>j. case pool_read w (Some bp) j of
                                         None \<Rightarrow> []
                                       | Some b \<Rightarrow> buffer_maps b) [i..<i + k])) (mapped w)"
  using assms
proof (induction k arbitrary: w i)
  case 0
  then show ?case by simp
next
  case (Suc k)
  let ?w1 = "free_buffer w bp i"
  have n2: "\<not> ub (free_all ?w1 bp (Suc i) k)" using Suc.prems unfolding free_all_step .
  then have n1: "\<not> ub ?w1" using free_all_ub [of ?w1 bp "Suc i" k] by auto
  from free_buffer_calls [OF n1] obtain b where b: "pool_read w (Some bp) i = Some b"
    and t: "trace ?w1 = trace w @ unmap_calls (buffer_maps b)"
    and m: "mapped ?w1 = released (buffer_maps b) (mapped w)"
    by blast
  have e: "map (\<lambda>j. case pool_read ?w1 (Some bp) j of None \<Rightarrow> [] | Some b \<Rightarrow> buffer_maps b)
             [Suc i..<Suc i + k] =
           map (\<lambda>j. case pool_read w (Some bp) j of None \<Rightarrow> [] | Some b \<Rightarrow> buffer_maps b)
             [Suc i..<Suc i + k]"
    by (intro map_cong) (auto simp: free_buffer_read_other)
  note ih = Suc.IH [OF n2, unfolded e]
  show ?case
    unfolding free_all_step interval_step using ih t m b by simp
qed

lemma free_all_pool_maps:
  "\<not> ub (free_all w bp 0 n) \<Longrightarrow>
   trace (free_all w bp 0 n) = trace w @ unmap_calls (pool_maps w bp n)
   \<and> mapped (free_all w bp 0 n) = released (pool_maps w bp n) (mapped w)"
  using free_all_calls [of w bp 0 n] by (simp add: pool_maps_def)

lemma stop_streaming_open:
  "is_open w handle \<Longrightarrow>
   libmedia_stop_streaming K w handle =
     (case xioctl K (k_streamoff K) w (fd (g_devices w (nat handle)))
             (VIDIOC_STREAMOFF V4L2_BUF_TYPE_VIDEO_CAPTURE) of
        (Inl e, w1) \<Rightarrow> (- 1, set_last_error MEDIA_ERROR_STREAMING_ERROR w1)
      | (Inr u, w1) \<Rightarrow> (0, dev_update (nat handle) (\<lambda>c. c\<lparr>streaming := 0\<rparr>) w1))"
  by (simp add: libmedia_stop_streaming_def find_device_open)

lemma stop_streaming_mp_open:
  "is_open w handle \<Longrightarrow>
   libmedia_stop_streaming_mp K w handle =
     (case xioctl K (k_streamoff K) w (fd (g_devices w (nat handle)))
             (VIDIOC_STREAMOFF V4L2_BUF_TYPE_VIDEO_CAPTURE_MPLANE) of
        (Inl e, w1) \<Rightarrow> (- 1, set_last_error MEDIA_ERROR_STREAMING_ERROR w1)
      | (Inr u, w1) \<Rightarrow> (0, dev_update (nat handle) (\<lambda>c. c\<lparr>streaming := 0\<rparr>) w1))"
  by (simp add: libmedia_stop_streaming_mp_def find_device_open)

lemma forced_stop_effect:
  assumes op: "is_open w handle"
  shows "\<exists>n. trace (forced_stop K w handle) =
               trace w @ (if streaming (g_devices w (nat handle)) \<noteq> 0
                          then replicate (Suc n)
                                 (Sys_ioctl (fd (g_devices w (nat handle)))
                                    (VIDIOC_STREAMOFF (stream_type (g_devices w (nat handle)))))
                          else [])"
    and "heap (forced_stop K w handle) = heap w"
    and "ub (forced_stop K w handle) = ub w"
    and "g_device_count (forced_stop K w handle) = g_device_count w"
    and "g_devices (forced_stop K w handle) =
           (if streaming (g_devices w (nat handle)) \<noteq> 0 \<and> stop_accepted K w handle
            then (g_devices w)(nat handle := (g_devices w (nat handle))\<lparr>streaming := 0\<rparr>)
            else g_devices w)"
proof -
  let ?d = "nat handle"
  let ?req = "VIDIOC_STREAMOFF (stream_type (g_devices w ?d))"
  let ?x = "xioctl K (k_streamoff K) w (fd (g_devices w ?d)) ?req"
  obtain a w1 where x: "?x = (a, w1)" by (cases ?x)
  note fr = xioctl_fields' [OF x]
  from xioctl_world [OF x] obtain n where
    tr: "trace w1 = trace w @ replicate (Suc n) (Sys_ioctl (fd (g_devices w ?d)) ?req)"
    by auto
  have fs: "streaming (g_devices w ?d) \<noteq> 0 \<Longrightarrow>
            forced_stop K w handle =
              (case a of Inl e \<Rightarrow> set_last_error MEDIA_ERROR_STREAMING_ERROR w1
               | Inr u \<Rightarrow> dev_update ?d (\<lambda>c. c\<lparr>streaming := 0\<rparr>) w1)"
    using op x
    by (cases a)
       (auto simp: forced_stop_def stream_type_def stop_streaming_open stop_streaming_mp_open)
  have acc: "stop_accepted K w handle = (case a of Inl e \<Rightarrow> False | Inr u \<Rightarrow> True)"
    using x by (simp add: stop_accepted_def)
  show "\<exists>n. trace (forced_stop K w handle) =
               trace w @ (if streaming (g_devices w ?d) \<noteq> 0
                          then replicate (Suc n) (Sys_ioctl (fd (g_devices w ?d)) ?req)
                          else [])"
  proof (cases "streaming (g_devices w ?d) \<noteq> 0")
    case True
    then have "trace (forced_stop K w handle) = trace w1"
      using fs by (cases a) (simp_all add: set_last_error_def dev_update_def)
    then show ?thesis using tr True by auto
  next
    case False
    then show ?thesis by (simp add: forced_stop_def)
  qed
  show "heap (forced_stop K w handle) = heap w"
    using fs fr by (cases "streaming (g_devices w ?d) \<noteq> 0"; cases a)
      (simp_all add: set_last_error_def dev_update_def forced_stop_def)
  show "ub (forced_stop K w handle) = ub w"
    using fs fr by (cases "streaming (g_devices w ?d) \<noteq> 0"; cases a)
      (simp_all add: set_last_error_def dev_update_def forced_stop_def)
  show "g_device_count (forced_stop K w handle) = g_device_count w"
    using fs fr by (cases "streaming (g_devices w ?d) \<noteq> 0"; cases a)
      (simp_all add: set_last_error_def dev_update_def forced_stop_def)
  show "g_devices (forced_stop K w handle) =
           (if streaming (g_devices w ?d) \<noteq> 0 \<and> stop_accepted K w handle
            then (g_devices w)(?d := (g_devices w ?d)\<lparr>streaming := 0\<rparr>)
            else g_devices w)"
    using fs fr acc by (cases "streaming (g_devices w ?d) \<noteq> 0"; cases a)
      (simp_all add: set_last_error_def dev_update_def forced_stop_def)
qed

lemma close_device_open:
  "is_open w handle \<Longrightarrow>
   libmedia_close_device K w handle =
     (0, let w2 = forced_free (forced_stop K w handle) handle in
         if fd (g_devices w2 (nat handle)) \<ge> 0
         then dev_update (nat handle) (\<lambda>c. c\<lparr>fd := - 1\<rparr>)
                (sys_close w2 (fd (g_devices w2 (nat handle))))
         else w2)"
  by (simp add: libmedia_close_device_def find_device_open forced_stop_def forced_free_def
      Let_def)

lemma settled_buf_cong:
  "heap w' = heap w \<Longrightarrow> ub w' = ub w \<Longrightarrow> settled_buf w' bp j = settled_buf w bp j"
  by (simp add: settled_buf_iff settled_def pool_read_def split: option.splits)

lemma forced_free_effect:
  assumes op: "is_open w handle"
  shows "\<exists>us. trace (forced_free w handle) = trace w @ us \<and> list_all is_munmap us
              \<and> (buffers (g_devices w (nat handle)) = None \<longrightarrow> us = [])"
    and "fd (g_devices (forced_free w handle) (nat handle)) = fd (g_devices w (nat handle))"
    and "streaming (g_devices (forced_free w handle) (nat handle)) =
           streaming (g_devices w (nat handle))"
    and "buffers (g_devices w (nat handle)) = Some bp \<Longrightarrow>
         0 < buffer_count (g_devices w (nat handle)) \<Longrightarrow>
         buffers (g_devices (forced_free w handle) (nat handle)) = None \<and>
         buffer_count (g_devices (forced_free w handle) (nat handle)) = 0 \<and>
         (\<forall>j < nat (buffer_count (g_devices w (nat handle))).
            settled_buf (forced_free w handle) bp j)"
proof -
  let ?d = "nat handle"
  let ?n = "buffer_count (g_devices w ?d)"
  have none: "buffers (g_devices w ?d) = None \<Longrightarrow> forced_free w handle = w"
    by (simp add: forced_free_def)
  have rej: "buffers (g_devices w ?d) = Some b \<Longrightarrow> ?n \<le> 0 \<Longrightarrow>
             forced_free w handle = set_last_error MEDIA_ERROR_INVALID_PARAM w" for b
    by (simp add: forced_free_def free_buffers_rejected)
  have acc: "buffers (g_devices w ?d) = Some b \<Longrightarrow> 0 < ?n \<Longrightarrow>
             forced_free w handle =
               dev_update ?d (\<lambda>c. c\<lparr>buffers := None, buffer_count := 0\<rparr>)
                 (free_all w b 0 (nat ?n))" for b
    using op by (simp add: forced_free_def free_buffers_open)
  show "\<exists>us. trace (forced_free w handle) = trace w @ us \<and> list_all is_munmap us
              \<and> (buffers (g_devices w ?d) = None \<longrightarrow> us = [])"
  proof (cases "buffers (g_devices w ?d)")
    case None
    then show ?thesis using none by simp
  next
    case (Some b)
    show ?thesis
    proof (cases "0 < ?n")
      case True
      obtain us where "trace (free_all w b 0 (nat ?n)) = trace w @ us" "list_all is_munmap us"
        using free_all_trace by blast
      then show ?thesis using acc [OF Some True] Some by (simp add: dev_update_def)
    next
      case False
      then show ?thesis using rej [OF Some] Some by (simp add: set_last_error_def)
    qed
  qed
  show "fd (g_devices (forced_free w handle) ?d) = fd (g_devices w ?d)"
    using none rej acc
    by (cases "buffers (g_devices w ?d)"; cases "0 < ?n")
       (simp_all add: set_last_error_def dev_update_def)
  show "streaming (g_devices (forced_free w handle) ?d) = streaming (g_devices w ?d)"
    using none rej acc
    by (cases "buffers (g_devices w ?d)"; cases "0 < ?n")
       (simp_all add: set_last_error_def dev_update_def)
  show "buffers (g_devices (forced_free w handle) ?d) = None \<and>
        buffer_count (g_devices (forced_free w handle) ?d) = 0 \<and>
        (\<forall>j < nat ?n. settled_buf (forced_free w handle) bp j)"
    if "buffers (g_devices w ?d) = Some bp" "0 < ?n"
  proof -
    note ff = acc [OF that]
    have a: "buffers (g_devices (forced_free w handle) ?d) = None \<and>
             buffer_count (g_devices (forced_free w handle) ?d) = 0"
      unfolding ff by (simp add: dev_update_def)
    have b: "\<forall>j < nat ?n. settled_buf (forced_free w handle) bp j"
      unfolding ff by (simp add: free_all_settles)
    show ?thesis using a b by simp
  qed
qed

lemma pool_maps_cong: "heap w' = heap w \<Longrightarrow> pool_maps w' bp n = pool_maps w bp n"
  by (simp add: pool_maps_def pool_read_def)

lemma forced_stop_mapped: "is_open w handle \<Longrightarrow> mapped (forced_stop K w handle) = mapped w"
proof -
  assume op: "is_open w handle"
  have x: "mapped w1 = mapped w" if "xioctl K (k_streamoff K) w f req = (a, w1)" for f req a w1
    using xioctl_fields' [OF that] by simp
  show ?thesis
    by (auto simp: forced_stop_def stop_streaming_open [OF op] stop_streaming_mp_open [OF op]
        set_last_error_def dev_update_def dest: x split: prod.splits sum.splits)
qed

lemma forced_free_calls:
  assumes op: "is_open w handle"
    and pool: "buffers (g_devices w (nat handle)) = Some bp"
      "0 < buffer_count (g_devices w (nat handle))"
    and nub: "\<not> ub (forced_free w handle)"
  shows "trace (forced_free w handle) =
           trace w @ unmap_calls (pool_maps w bp (nat (buffer_count (g_devices w (nat handle)))))"
    and "mapped (forced_free w handle) =
           released (pool_maps w bp (nat (buffer_count (g_devices w (nat handle))))) (mapped w)"
proof -
  let ?n = "nat (buffer_count (g_devices w (nat handle)))"
  have ff: "forced_free w handle =
              dev_update (nat handle) (\<lambda>c. c\<lparr>buffers := None, buffer_count := 0\<rparr>)
                (free_all w bp 0 ?n)"
    using op pool by (simp add: forced_free_def free_buffers_open)
  have "\<not> ub (free_all w bp 0 ?n)" using nub by (simp add: ff dev_update_def)
  note c = free_all_pool_maps [OF this]
  show "trace (forced_free w handle) = trace w @ unmap_calls (pool_maps w bp ?n)"
    using c by (simp add: ff dev_update_def)
  show "mapped (forced_free w handle) = released (pool_maps w bp ?n) (mapped w)"
    using c by (simp add: ff dev_update_def)
qed

lemma forced_free_nothing:
  assumes "buffers (g_devices w (nat handle)) = None \<or> buffer_count (g_devices w (nat handle)) \<le> 0"
  shows "trace (forced_free w handle) = trace w \<and> mapped (forced_free w handle) = mapped w"
proof (cases "buffers (g_devices w (nat handle))")
  case None
  then show ?thesis by (simp add: forced_free_def)
next
  case (Some bp)
  with assms have "buffer_count (g_devices w (nat handle)) \<le> 0" by simp
  then show ?thesis
    using Some by (simp add: forced_free_def free_buffers_rejected set_last_error_def)
qed

text \<open>
  C4, as the code has it. On an open device \<open>libmedia_close_device\<close> returns 0 and makes
  its system calls in this order: the stream-stop control code (repeated only while
  interrupted by a signal) if and only if the device is streaming; then nothing but
  \<open>munmap\<close> calls; last, one \<open>close\<close> of the device's file descriptor, after which the
  slot's descriptor is -1. When no pool is recorded, or its count is not positive, no
  \<open>munmap\<close> is made and the mapping table stays as it was. When a pool with a positive
  count is recorded, the \<open>munmap\<close> calls are exactly one for every mapped plane of every
  buffer of the pool, with the plane's address and recorded length, in pool order (unless
  an access left the arrays); the mapping table at the end is the one of the start with
  these mappings removed, so that with a table free of duplicates no plane of the pool is
  mapped any more; the pool record is cleared and no plane pointer of the pool is an
  address any more. Teardown is best-effort: the descriptor is closed whatever the stop
  answered, so the streaming flag is clear at the end exactly when the device was not
  streaming or the hardware accepted the stop.
\<close>

theorem close_device_order:
  assumes op: "is_open w handle"
  shows "\<exists>n unmaps.
           fst (libmedia_close_device K w handle) = 0
         \<and> trace (snd (libmedia_close_device K w handle)) =
             trace w
             @ (if streaming (g_devices w (nat handle)) \<noteq> 0
                then replicate (Suc n)
                       (Sys_ioctl (fd (g_devices w (nat handle)))
                          (VIDIOC_STREAMOFF (stream_type (g_devices w (nat handle)))))
                else [])
             @ unmaps
             @ [Sys_close (fd (g_devices w (nat handle)))]
         \<and> list_all is_munmap unmaps
         \<and> (buffers (g_devices w (nat handle)) = None \<longrightarrow> unmaps = [])
         \<and> fd (g_devices (snd (libmedia_close_device K w handle)) (nat handle)) = - 1
         \<and> (streaming (g_devices (snd (libmedia_close_device K w handle)) (nat handle)) = 0) =
             (streaming (g_devices w (nat handle)) = 0 \<or> stop_accepted K w handle)
         \<and> (\<forall>bp. buffers (g_devices w (nat handle)) = Some bp \<and>
                  0 < buffer_count (g_devices w (nat handle)) \<longrightarrow>
                  buffers (g_devices (snd (libmedia_close_device K w handle)) (nat handle)) = None \<and>
                  buffer_count (g_devices (snd (libmedia_close_device K w handle)) (nat handle)) = 0 \<and>
                  (\<forall>j < nat (buffer_count (g_devices w (nat handle))).
                     settled_buf (snd (libmedia_close_device K w handle)) bp j))
         \<and> (buffers (g_devices w (nat handle)) = None \<or>
            buffer_count (g_devices w (nat handle)) \<le> 0 \<longrightarrow>
              unmaps = [] \<and> mapped (snd (libmedia_close_device K w handle)) = mapped w)
         \<and> (\<forall>bp. buffers (g_devices w (nat handle)) = Some bp \<and>
                  0 < buffer_count (g_devices w (nat handle)) \<and>
                  \<not> ub (snd (libmedia_close_device K w handle)) \<longrightarrow>
                  unmaps =
                    unmap_calls (pool_maps w bp (nat (buffer_count (g_devices w (nat handle))))) \<and>
                  mapped (snd (libmedia_close_device K w handle)) =
                    released (pool_maps w bp (nat (buffer_count (g_devices w (nat handle)))))
                      (mapped w) \<and>
                  (distinct (mapped w) \<longrightarrow>
                     set (mapped (snd (libmedia_close_device K w handle))) \<inter>
                     set (pool_maps w bp (nat (buffer_count (g_devices w (nat handle))))) = {}))"
proof -
  let ?d = "nat handle"
  let ?dev = "g_devices w ?d"
  let ?w1 = "forced_stop K w handle"
  let ?w2 = "forced_free ?w1 handle"
  let ?w3 = "dev_update ?d (\<lambda>c. c\<lparr>fd := - 1\<rparr>) (sys_close ?w2 (fd ?dev))"
  note s = forced_stop_effect [OF op, of K]
  have dev1: "g_devices ?w1 ?d = ?dev \<or> g_devices ?w1 ?d = ?dev\<lparr>streaming := 0\<rparr>"
    using s(5) by (simp split: if_splits)
  have fd1: "fd (g_devices ?w1 ?d) = fd ?dev"
    and bufs1: "buffers (g_devices ?w1 ?d) = buffers ?dev"
    and cnt1: "buffer_count (g_devices ?w1 ?d) = buffer_count ?dev"
    using dev1 by auto
  have str1: "(streaming (g_devices ?w1 ?d) = 0) =
              (streaming ?dev = 0 \<or> stop_accepted K w handle)"
    using s(5) by (simp split: if_splits)
  have op1: "is_open ?w1 handle"
    using op fd1 s(4) by (simp add: is_open_def)
  note f = forced_free_effect [OF op1]
  have fd2: "fd (g_devices ?w2 ?d) = fd ?dev" using f(2) fd1 by simp
  have res: "libmedia_close_device K w handle = (0, ?w3)"
    using op fd2 by (simp add: close_device_open is_open_def)
  obtain n where tr1: "trace ?w1 =
       trace w @ (if streaming ?dev \<noteq> 0
                  then replicate (Suc n) (Sys_ioctl (fd ?dev) (VIDIOC_STREAMOFF (stream_type ?dev)))
                  else [])"
    using s(1) by blast
  obtain us where tr2: "trace ?w2 = trace ?w1 @ us" and mun: "list_all is_munmap us"
    and nopool: "buffers ?dev = None \<longrightarrow> us = []"
    using f(1) bufs1 by auto
  have tr3: "trace ?w3 = trace ?w2 @ [Sys_close (fd ?dev)]"
    by (simp add: dev_update_def sys_close_def record_call_def)
  have fd3: "fd (g_devices ?w3 ?d) = - 1" by (simp add: dev_update_def)
  have str3: "streaming (g_devices ?w3 ?d) = streaming (g_devices ?w1 ?d)"
    using f(3) by (simp add: dev_update_def sys_close_def record_call_def)
  have mp3: "mapped ?w3 = mapped ?w2" and ub3: "ub ?w3 = ub ?w2"
    by (simp_all add: dev_update_def sys_close_def record_call_def)
  have mp1: "mapped ?w1 = mapped w" by (rule forced_stop_mapped [OF op])
  have pool: "buffers (g_devices ?w3 ?d) = None \<and> buffer_count (g_devices ?w3 ?d) = 0 \<and>
              (\<forall>j < nat (buffer_count ?dev). settled_buf ?w3 bp j)"
    if "buffers ?dev = Some bp" "0 < buffer_count ?dev" for bp
  proof -
    have "buffers (g_devices ?w2 ?d) = None \<and> buffer_count (g_devices ?w2 ?d) = 0 \<and>
          (\<forall>j < nat (buffer_count (g_devices ?w1 ?d)). settled_buf ?w2 bp j)"
      using f(4) [of bp] that bufs1 cnt1 by simp
    moreover have "settled_buf ?w3 bp j = settled_buf ?w2 bp j" for j
      by (rule settled_buf_cong) (simp_all add: dev_update_def sys_close_def record_call_def)
    ultimately show ?thesis
      using cnt1 by (simp add: dev_update_def sys_close_def record_call_def)
  qed
  have none: "us = [] \<and> mapped ?w3 = mapped w"
    if "buffers ?dev = None \<or> buffer_count ?dev \<le> 0"
  proof -
    from that have "buffers (g_devices ?w1 ?d) = None \<or> buffer_count (g_devices ?w1 ?d) \<le> 0"
      using bufs1 cnt1 by simp
    from forced_free_nothing [OF this] tr2 mp1 mp3 show ?thesis by simp
  qed
  have calls: "us = unmap_calls (pool_maps w bp (nat (buffer_count ?dev))) \<and>
               mapped ?w3 = released (pool_maps w bp (nat (buffer_count ?dev))) (mapped w) \<and>
               (distinct (mapped w) \<longrightarrow>
                  set (mapped ?w3) \<inter> set (pool_maps w bp (nat (buffer_count ?dev))) = {})"
    if "buffers ?dev = Some bp" "0 < buffer_count ?dev" "\<not> ub ?w3" for bp
  proof -
    have p1: "buffers (g_devices ?w1 ?d) = Some bp" "0 < buffer_count (g_devices ?w1 ?d)"
      using that bufs1 cnt1 by simp_all
    have n2: "\<not> ub ?w2" using that(3) ub3 by simp
    note c = forced_free_calls [OF op1 p1 n2]
    have pm: "pool_maps ?w1 bp (nat (buffer_count ?dev)) = pool_maps w bp (nat (buffer_count ?dev))"
      by (rule pool_maps_cong) (rule s(2))
    have u: "us = unmap_calls (pool_maps w bp (nat (buffer_count ?dev)))"
      using c(1) tr2 by (simp add: cnt1 pm)
    have m: "mapped ?w3 = released (pool_maps w bp (nat (buffer_count ?dev))) (mapped w)"
      using c(2) mp3 mp1 by (simp add: cnt1 pm)
    have d: "set (mapped ?w3) \<inter> set (pool_maps w bp (nat (buffer_count ?dev))) = {}"
      if "distinct (mapped w)"
      unfolding m
      using released_distinct [OF that, of "pool_maps w bp (nat (buffer_count ?dev))"] by auto
    from u m d show ?thesis by simp
  qed
  have c2: "trace ?w3 =
             trace w
             @ (if streaming ?dev \<noteq> 0
                then replicate (Suc n) (Sys_ioctl (fd ?dev) (VIDIOC_STREAMOFF (stream_type ?dev)))
                else [])
             @ us
             @ [Sys_close (fd ?dev)]"
    unfolding tr3 tr2 tr1 by simp
  have c6: "(streaming (g_devices ?w3 ?d) = 0) = (streaming ?dev = 0 \<or> stop_accepted K w handle)"
    unfolding str3 by (rule str1)
  have c7: "\<forall>bp. buffers ?dev = Some bp \<and> 0 < buffer_count ?dev \<longrightarrow>
              buffers (g_devices ?w3 ?d) = None \<and> buffer_count (g_devices ?w3 ?d) = 0 \<and>
              (\<forall>j < nat (buffer_count ?dev). settled_buf ?w3 bp j)"
    using pool by blast
  have c8: "buffers ?dev = None \<or> buffer_count ?dev \<le> 0 \<longrightarrow> us = [] \<and> mapped ?w3 = mapped w"
    using none by blast
  have c9: "\<forall>bp. buffers ?dev = Some bp \<and> 0 < buffer_count ?dev \<and> \<not> ub ?w3 \<longrightarrow>
               us = unmap_calls (pool_maps w bp (nat (buffer_count ?dev))) \<and>
               mapped ?w3 = released (pool_maps w bp (nat (buffer_count ?dev))) (mapped w) \<and>
               (distinct (mapped w) \<longrightarrow>
                  set (mapped ?w3) \<inter> set (pool_maps w bp (nat (buffer_count ?dev))) = {})"
    using calls by blast
  have c1: "fst (0 :: int, ?w3) = 0" by simp
  have "fst (0 :: int, ?w3) = 0
         \<and> trace (snd (0 :: int, ?w3)) =
             trace w
             @ (if streaming ?dev \<noteq> 0
                then replicate (Suc n) (Sys_ioctl (fd ?dev) (VIDIOC_STREAMOFF (stream_type ?dev)))
                else [])
             @ us
             @ [Sys_close (fd ?dev)]
         \<and> list_all is_munmap us
         \<and> (buffers ?dev = None \<longrightarrow> us = [])
         \<and> fd (g_devices (snd (0 :: int, ?w3)) ?d) = - 1
         \<and> (streaming (g_devices (snd (0 :: int, ?w3)) ?d) = 0) =
             (streaming ?dev = 0 \<or> stop_accepted K w handle)
         \<and> (\<forall>bp. buffers ?dev = Some bp \<and> 0 < buffer_count ?dev \<longrightarrow>
                  buffers (g_devices (snd (0 :: int, ?w3)) ?d) = None \<and>
                  buffer_count (g_devices (snd (0 :: int, ?w3)) ?d) = 0 \<and>
                  (\<forall>j < nat (buffer_count ?dev). settled_buf (snd (0 :: int, ?w3)) bp j))
         \<and> (buffers ?dev = None \<or> buffer_count ?dev \<le> 0 \<longrightarrow>
              us = [] \<and> mapped (snd (0 :: int, ?w3)) = mapped w)
         \<and> (\<forall>bp. buffers ?dev = Some bp \<and> 0 < buffer_count ?dev \<and>
                  \<not> ub (snd (0 :: int, ?w3)) \<longrightarrow>
                  us = unmap_calls (pool_maps w bp (nat (buffer_count ?dev))) \<and>
                  mapped (snd (0 :: int, ?w3)) =
                    released (pool_maps w bp (nat (buffer_count ?dev))) (mapped w) \<and>
                  (distinct (mapped w) \<longrightarrow>
                     set (mapped (snd (0 :: int, ?w3))) \<inter>
                     set (pool_maps w bp (nat (buffer_count ?dev))) = {}))"
    unfolding snd_conv
    by (intro conjI) (rule c1 c2 mun nopool fd3 c6 c7 c8 c9)+
  then show ?thesis
    unfolding res by - (rule exI, rule exI, assumption)
qed

lemma close_example:
  "fst (libmedia_close_device stuck_kernel streaming_world 0) = 0"
  "trace (snd (libmedia_close_device stuck_kernel streaming_world 0)) =
       [Sys_open ''/dev/video0'',
        Sys_ioctl 3 (VIDIOC_STREAMOFF V4L2_BUF_TYPE_VIDEO_CAPTURE),
        Sys_munmap 4096 614400, Sys_munmap 8192 614400, Sys_close 3]"
  "fd (g_devices (snd (libmedia_close_device stuck_kernel streaming_world 0)) 0) = - 1"
  "streaming (g_devices (snd (libmedia_close_device stuck_kernel streaming_world 0)) 0) = 1"
  "\<not> ub (snd (libmedia_close_device stuck_kernel streaming_world 0))"
proof -
  have x: "xioctl stuck_kernel (k_streamoff stuck_kernel) streaming_world
             (fd (g_devices streaming_world (nat 0)))
             (VIDIOC_STREAMOFF V4L2_BUF_TYPE_VIDEO_CAPTURE) =
           (Inl EIO, record_call (Sys_ioctl 3 (VIDIOC_STREAMOFF V4L2_BUF_TYPE_VIDEO_CAPTURE))
                       streaming_world)"
    by (simp add: xioctl_uninterrupted interrupted_def stuck_kernel_def idle_kernel_def
        streaming_world_def video0_def)
  have dv: "streaming (g_devices streaming_world 0) = 1"
      "use_multiplanar (g_devices streaming_world 0) = 0"
    by (simp_all add: streaming_world_def video0_def)
  have st: "forced_stop stuck_kernel streaming_world 0 = stop_failed_world"
    using stop_streaming_open [OF is_open_streaming_world, of stuck_kernel] x
    by (simp add: forced_stop_def dv stop_failed_world_def)
  have d1: "g_devices stop_failed_world = g_devices streaming_world"
    by (simp add: stop_failed_world_def set_last_error_def record_call_def)
  have o: "is_open stop_failed_world 0"
    using is_open_streaming_world
    by (simp add: is_open_def stop_failed_world_def set_last_error_def record_call_def)
  have bc: "buffers (g_devices stop_failed_world 0) = Some 100"
      "buffer_count (g_devices stop_failed_world 0) = 2"
      "fd (g_devices stop_failed_world 0) = 3"
      "streaming (g_devices stop_failed_world 0) = 1"
    unfolding d1 by (simp_all add: streaming_world_def video0_def)
  have ff: "forced_free stop_failed_world 0 =
              dev_update 0 (\<lambda>c. c\<lparr>buffers := None, buffer_count := 0\<rparr>)
                (free_all stop_failed_world 100 0 2)"
    using free_buffers_open [OF o, of 2 100] by (simp add: forced_free_def bc)
  have tr: "trace (free_all stop_failed_world 100 0 2) =
              [Sys_open ''/dev/video0'',
               Sys_ioctl 3 (VIDIOC_STREAMOFF V4L2_BUF_TYPE_VIDEO_CAPTURE),
               Sys_munmap 4096 614400, Sys_munmap 8192 614400]"
    by (simp add: numeral_2_eq_2 free_buffer_def free_all_step pool_read_def
        unmap_plane_def pool_write_def sys_munmap_def record_call_def set_last_error_def
        stop_failed_world_def streaming_world_def pool_buffer_def VIDEO_MAX_PLANES_def)
  have nub: "\<not> ub (free_all stop_failed_world 100 0 2)"
    by (simp add: numeral_2_eq_2 free_buffer_def free_all_step pool_read_def
        unmap_plane_def pool_write_def sys_munmap_def record_call_def set_last_error_def
        stop_failed_world_def streaming_world_def pool_buffer_def VIDEO_MAX_PLANES_def)
  have dv2: "fd (g_devices (forced_free stop_failed_world 0) 0) = 3"
      "streaming (g_devices (forced_free stop_failed_world 0) 0) = 1"
    using forced_free_effect(2,3) [OF o] bc by simp_all
  have res: "libmedia_close_device stuck_kernel streaming_world 0 =
               (0, dev_update 0 (\<lambda>c. c\<lparr>fd := - 1\<rparr>)
                     (sys_close (forced_free stop_failed_world 0) 3))"
    using dv2 by (simp add: close_device_open [OF is_open_streaming_world] st Let_def)
  show "fst (libmedia_close_device stuck_kernel streaming_world 0) = 0"
    by (simp add: res)
  show "trace (snd (libmedia_close_device stuck_kernel streaming_world 0)) =
       [Sys_open ''/dev/video0'',
        Sys_ioctl 3 (VIDIOC_STREAMOFF V4L2_BUF_TYPE_VIDEO_CAPTURE),
        Sys_munmap 4096 614400, Sys_munmap 8192 614400, Sys_close 3]"
    by (simp add: res ff dev_update_def sys_close_def record_call_def tr)
  show "fd (g_devices (snd (libmedia_close_device stuck_kernel streaming_world 0)) 0) = - 1"
    by (simp add: res dev_update_def)
  show "streaming (g_devices (snd (libmedia_close_device stuck_kernel streaming_world 0)) 0) = 1"
    using dv2 by (simp add: res dev_update_def sys_close_def record_call_def)
  show "\<not> ub (snd (libmedia_close_device stuck_kernel streaming_world 0))"
    using nub by (simp add: res ff dev_update_def sys_close_def record_call_def)
qed

lemma pool_maps_streaming_world:
  "pool_maps streaming_world 100 2 = [(4096, 614400), (8192, 614400)]"
  by (simp add: pool_maps_def buffer_maps_def plane_map_def pool_read_def streaming_world_def
      pool_buffer_def numeral_2_eq_2)

theorem close_device_order_witness:
  "is_open streaming_world 0
   \<and> fst (libmedia_close_device stuck_kernel streaming_world 0) = 0
   \<and> fd (g_devices (snd (libmedia_close_device stuck_kernel streaming_world 0)) (nat 0)) = - 1
   \<and> mapped streaming_world = [(4096, 614400), (8192, 614400)]
   \<and> mapped (snd (libmedia_close_device stuck_kernel streaming_world 0)) = []"
proof -
  let ?X = "snd (libmedia_close_device stuck_kernel streaming_world 0)"
  have p: "buffers (g_devices streaming_world 0) = Some 100"
    "buffer_count (g_devices streaming_world 0) = 2"
    "mapped streaming_world = [(4096, 614400), (8192, 614400)]"
    by (simp_all add: streaming_world_def video0_def)
  from close_device_order [OF is_open_streaming_world, of stuck_kernel]
  have "fst (libmedia_close_device stuck_kernel streaming_world 0) = 0 \<and>
    fd (g_devices ?X (nat 0)) = - 1 \<and>
    (\<forall>bp. buffers (g_devices streaming_world (nat 0)) = Some bp \<and>
          0 < buffer_count (g_devices streaming_world (nat 0)) \<and> \<not> ub ?X \<longrightarrow>
          mapped ?X =
            released (pool_maps streaming_world bp
                        (nat (buffer_count (g_devices streaming_world (nat 0)))))
              (mapped streaming_world))"
    by (elim exE conjE) (intro conjI allI impI, assumption, assumption, blast)
  then have "fst (libmedia_close_device stuck_kernel streaming_world 0) = 0 \<and>
    fd (g_devices ?X (nat 0)) = - 1 \<and>
    mapped ?X = released (pool_maps streaming_world 100 2) (mapped streaming_world)"
    using close_example(5) by (simp add: p)
  then show ?thesis
    using is_open_streaming_world
    by (simp add: pool_maps_streaming_world p released_def)
qed

text \<open>
  The claim as stated fails in its last clause. The device is streaming with two mapped
  buffers and the hardware rejects the stop signal: \<open>libmedia_close_device\<close> still unmaps
  the pool and closes the descriptor, and the device's streaming flag is still set when
  the handle is released.
\<close>

theorem close_device_counterexample:
  "streaming (g_devices streaming_world 0) = 1
   \<and> fst (libmedia_close_device stuck_kernel streaming_world 0) = 0
   \<and> trace (snd (libmedia_close_device stuck_kernel streaming_world 0)) =
       [Sys_open ''/dev/video0'',
        Sys_ioctl 3 (VIDIOC_STREAMOFF V4L2_BUF_TYPE_VIDEO_CAPTURE),
        Sys_munmap 4096 614400, Sys_munmap 8192 614400, Sys_close 3]
   \<and> fd (g_devices (snd (libmedia_close_device stuck_kernel streaming_world 0)) 0) = - 1
   \<and> streaming (g_devices (snd (libmedia_close_device stuck_kernel streaming_world 0)) 0) = 1"
  using close_example by (simp add: streaming_world_def video0_def)

section \<open>Allocating the pool\<close>

lemma map_buffers_Suc:
  "map_buffers K w f bp i (Suc k) =
     (case map_one K w f bp i of
        (True, w1) \<Rightarrow> map_buffers K w1 f bp (Suc i) k
      | (False, w1) \<Rightarrow> (False, w1))"
  by (simp add: map_one_def Let_def split: prod.splits sum.splits)

lemma sys_mmap_fields:
  "g_devices (snd (sys_mmap K w len f off)) = g_devices w"
  "heap (snd (sys_mmap K w len f off)) = heap w"
  "ub (snd (sys_mmap K w len f off)) = ub w"
  "fst (sys_mmap K w len f off) = MAP_FAILED \<or> is_addr (fst (sys_mmap K w len f off))"
  by (simp_all add: sys_mmap_def record_call_def is_addr_def split: option.splits)

lemma pool_write_fields [simp]:
  "g_devices (pool_write w bp i g) = g_devices w"
  "g_device_count (pool_write w bp i g) = g_device_count w"
  by (simp_all add: pool_write_def split: option.splits)

lemma set_last_error_fields [simp]:
  "g_devices (set_last_error e w) = g_devices w"
  "g_device_count (set_last_error e w) = g_device_count w"
  "heap (set_last_error e w) = heap w"
  "ub (set_last_error e w) = ub w"
  "trace (set_last_error e w) = trace w"
  "mapped (set_last_error e w) = mapped w"
  "pool_read (set_last_error e w) p i = pool_read w p i"
  by (simp_all add: set_last_error_def)

lemma slot_mapped_cong:
  "pool_read w' (Some bp) j = pool_read w (Some bp) j \<Longrightarrow>
   slot_mapped w' bp j = slot_mapped w bp j"
  by (simp add: slot_mapped_def)

lemma map_one_effect:
  assumes "map_one K w f bp i = (ok, w')"
  shows "g_devices w' = g_devices w \<and> (ub w \<longrightarrow> ub w')
       \<and> (\<forall>j. j \<noteq> i \<longrightarrow> pool_read w' (Some bp) j = pool_read w (Some bp) j)
       \<and> (ok \<longrightarrow> \<not> ub w' \<longrightarrow> slot_mapped w' bp i)"
proof -
  let ?x = "xioctl K (k_querybuf K) w f (VIDIOC_QUERYBUF V4L2_BUF_TYPE_VIDEO_CAPTURE (of_nat i))"
  obtain a w1 where x: "?x = (a, w1)" by (cases ?x)
  note fr = xioctl_fields' [OF x]
  have rd1: "pool_read w1 p q = pool_read w p q" for p q
    by (rule pool_read_cong) (rule fr)
  show ?thesis
  proof (cases a)
    case (Inl e)
    then have w': "ok = False" "w' = set_last_error MEDIA_ERROR_BUFFER_ERROR w1"
      using assms x by (simp_all add: map_one_def)
    show ?thesis using w' fr rd1 by simp
  next
    case (Inr vb)
    let ?m = "sys_mmap K w1 (unat (vb_length vb)) f (unat (vb_offset vb))"
    obtain ptr w2 where m: "?m = (ptr, w2)" by (cases ?m)
    have m2: "g_devices w2 = g_devices w1" "heap w2 = heap w1" "ub w2 = ub w1"
      "ptr = MAP_FAILED \<or> is_addr ptr"
      using sys_mmap_fields [of K w1 "unat (vb_length vb)" f "unat (vb_offset vb)"] m
      by simp_all
    have rd2: "pool_read w2 p q = pool_read w p q" for p q
      using pool_read_cong [OF m2(2)] rd1 by simp
    let ?w3 = "pool_write w2 bp i (\<lambda>b. b\<lparr>start := (start b)(0 := ptr)\<rparr>)"
    let ?g = "\<lambda>b. b\<lparr>plane_length := (plane_length b)(0 := unat (vb_length vb)),
                    buf_num_planes := 1, index := sint (of_nat i :: 32 word)\<rparr>"
    have w': "(ok, w') = (if ptr = MAP_FAILED
                          then (False, set_last_error MEDIA_ERROR_OUT_OF_MEMORY ?w3)
                          else (True, pool_write ?w3 bp i ?g))"
      using assms x Inr m by (simp add: map_one_def Let_def)
    show ?thesis
    proof (cases "ptr = MAP_FAILED")
      case True
      then have "ok = False" "w' = set_last_error MEDIA_ERROR_OUT_OF_MEMORY ?w3"
        using w' by simp_all
      then show ?thesis
        using m2 fr rd2
        by (simp add: ub_pool_write pool_read_pool_write split: option.splits)
    next
      case False
      then have r: "ok = True" "w' = pool_write ?w3 bp i ?g" and ad: "is_addr ptr"
        using w' m2(4) by simp_all
      have a1: "g_devices w' = g_devices w" using r m2 fr by simp
      have a2: "ub w \<longrightarrow> ub w'" using r m2 fr by (simp add: ub_pool_write)
      have a3: "\<forall>j. j \<noteq> i \<longrightarrow> pool_read w' (Some bp) j = pool_read w (Some bp) j"
        using r rd2 by (simp add: pool_read_pool_write split: option.splits)
      have a4: "\<not> ub w' \<longrightarrow> slot_mapped w' bp i"
      proof (cases "pool_read w (Some bp) i")
        case None
        then show ?thesis using r rd2 by (simp add: ub_pool_write pool_read_pool_write)
      next
        case (Some b0)
        then show ?thesis
          using r rd2 ad
          by (simp add: pool_read_pool_write slot_mapped_def fully_mapped_def)
      qed
      show ?thesis using a1 a2 a3 a4 r by simp
    qed
  qed
qed

lemma map_buffers_effect:
  "map_buffers K w f bp i k = (ok, w') \<Longrightarrow>
   g_devices w' = g_devices w \<and> (ub w \<longrightarrow> ub w')
   \<and> (\<forall>j < i. pool_read w' (Some bp) j = pool_read w (Some bp) j)
   \<and> (ok \<longrightarrow> \<not> ub w' \<longrightarrow> (\<forall>j. i \<le> j \<and> j < i + k \<longrightarrow> slot_mapped w' bp j))"
proof (induction k arbitrary: w i)
  case 0
  then show ?case by auto
next
  case (Suc k)
  obtain ok1 w1 where one: "map_one K w f bp i = (ok1, w1)" by (cases "map_one K w f bp i")
  note e = map_one_effect [OF one]
  from Suc.prems have run: "(case map_one K w f bp i of
        (True, w1) \<Rightarrow> map_buffers K w1 f bp (Suc i) k
      | (False, w1) \<Rightarrow> (False, w1)) = (ok, w')"
    unfolding map_buffers_Suc .
  show ?case
  proof (cases ok1)
    case False
    then have "ok = False" "w' = w1" using run one by simp_all
    then show ?thesis using e by auto
  next
    case True
    then have rec: "map_buffers K w1 f bp (Suc i) k = (ok, w')" using run one by simp
    note ih = Suc.IH [OF rec]
    have a1: "g_devices w' = g_devices w" using ih e by simp
    have a2: "ub w \<longrightarrow> ub w'" using ih e by simp
    have a3: "\<forall>j < i. pool_read w' (Some bp) j = pool_read w (Some bp) j"
      using ih e by auto
    have a4: "slot_mapped w' bp j" if "ok" "\<not> ub w'" "i \<le> j" "j < i + Suc k" for j
    proof (cases "j = i")
      case True
      have "\<not> ub w1" using ih that(2) by blast
      then have "slot_mapped w1 bp i" using e \<open>ok1\<close> by blast
      moreover have "pool_read w' (Some bp) i = pool_read w1 (Some bp) i" using ih by simp
      ultimately show ?thesis using True slot_mapped_cong by blast
    next
      case False
      then have "Suc i \<le> j \<and> j < Suc i + k" using that by simp
      then show ?thesis using ih that by blast
    qed
    show ?thesis using a1 a2 a3 a4 by blast
  qed
qed

lemma map_planes_Suc:
  "map_planes K w f bp i vb p (Suc k) =
     (case map_plane_one K w f bp i vb p of
        (True, w1) \<Rightarrow> map_planes K w1 f bp i vb (Suc p) k
      | (False, w1) \<Rightarrow> (False, w1))"
  by (simp add: map_plane_one_def Let_def split: prod.splits)

lemma map_plane_one_effect:
  assumes "map_plane_one K w f bp i vb p = (ok, w')"
  shows "g_devices w' = g_devices w \<and> (ub w \<longrightarrow> ub w')
       \<and> (\<forall>j. j \<noteq> i \<longrightarrow> pool_read w' (Some bp) j = pool_read w (Some bp) j)
       \<and> (ok \<longrightarrow> (\<forall>b0. pool_read w (Some bp) i = Some b0 \<longrightarrow>
             (\<exists>b. pool_read w' (Some bp) i = Some b \<and> buf_num_planes b = buf_num_planes b0
                  \<and> index b = index b0 \<and> is_addr (start b p)
                  \<and> (\<forall>q. q \<noteq> p \<longrightarrow> start b q = start b0 q))))"
proof (cases "p < VIDEO_MAX_PLANES")
  case False
  then have "ok = False" "w' = w\<lparr>ub := True\<rparr>" using assms by (simp_all add: map_plane_one_def)
  then show ?thesis by simp
next
  case True
  let ?m = "sys_mmap K w (unat (vb_plane_length vb p)) f (unat (vb_plane_mem_offset vb p))"
  obtain ptr w1 where m: "?m = (ptr, w1)" by (cases ?m)
  have m2: "g_devices w1 = g_devices w" "heap w1 = heap w" "ub w1 = ub w"
    "ptr = MAP_FAILED \<or> is_addr ptr"
    using sys_mmap_fields [of K w "unat (vb_plane_length vb p)" f
        "unat (vb_plane_mem_offset vb p)"] m
    by simp_all
  have rd: "pool_read w1 x q = pool_read w x q" for x q
    by (rule pool_read_cong) (rule m2)
  let ?w2 = "pool_write w1 bp i (\<lambda>b. b\<lparr>start := (start b)(p := ptr)\<rparr>)"
  let ?g = "\<lambda>b. b\<lparr>plane_length := (plane_length b)(p := unat (vb_plane_length vb p))\<rparr>"
  have w': "(ok, w') = (if ptr = MAP_FAILED
                        then (False, set_last_error MEDIA_ERROR_OUT_OF_MEMORY ?w2)
                        else (True, pool_write ?w2 bp i ?g))"
    using assms True m by (simp add: map_plane_one_def Let_def)
  show ?thesis
  proof (cases "ptr = MAP_FAILED")
    case True
    then have "ok = False" "w' = set_last_error MEDIA_ERROR_OUT_OF_MEMORY ?w2"
      using w' by simp_all
    then show ?thesis
      using m2 rd by (simp add: ub_pool_write pool_read_pool_write split: option.splits)
  next
    case False
    then have r: "ok = True" "w' = pool_write ?w2 bp i ?g" and ad: "is_addr ptr"
      using w' m2(4) by simp_all
    have a1: "g_devices w' = g_devices w" using r m2 by simp
    have a2: "ub w \<longrightarrow> ub w'" using r m2 by (simp add: ub_pool_write)
    have a3: "\<forall>j. j \<noteq> i \<longrightarrow> pool_read w' (Some bp) j = pool_read w (Some bp) j"
      using r rd by (simp add: pool_read_pool_write split: option.splits)
    have a4: "\<exists>b. pool_read w' (Some bp) i = Some b \<and> buf_num_planes b = buf_num_planes b0
                  \<and> index b = index b0 \<and> is_addr (start b p)
                  \<and> (\<forall>q. q \<noteq> p \<longrightarrow> start b q = start b0 q)"
      if "pool_read w (Some bp) i = Some b0" for b0
      using r rd ad that by (simp add: pool_read_pool_write)
    show ?thesis using a1 a2 a3 a4 r by blast
  qed
qed

lemma map_planes_effect:
  "map_planes K w f bp i vb p k = (ok, w') \<Longrightarrow>
   g_devices w' = g_devices w \<and> (ub w \<longrightarrow> ub w')
   \<and> (\<forall>j. j \<noteq> i \<longrightarrow> pool_read w' (Some bp) j = pool_read w (Some bp) j)
   \<and> (ok \<longrightarrow> (\<forall>b0. pool_read w (Some bp) i = Some b0 \<longrightarrow>
         (\<exists>b. pool_read w' (Some bp) i = Some b \<and> buf_num_planes b = buf_num_planes b0
              \<and> index b = index b0
              \<and> (\<forall>q. p \<le> q \<and> q < p + k \<longrightarrow> is_addr (start b q))
              \<and> (\<forall>q < p. start b q = start b0 q))))"
proof (induction k arbitrary: w p)
  case 0
  then show ?case by auto
next
  case (Suc k)
  obtain ok1 w1 where one: "map_plane_one K w f bp i vb p = (ok1, w1)"
    by (cases "map_plane_one K w f bp i vb p")
  note e = map_plane_one_effect [OF one]
  from Suc.prems have run: "(case map_plane_one K w f bp i vb p of
        (True, w1) \<Rightarrow> map_planes K w1 f bp i vb (Suc p) k
      | (False, w1) \<Rightarrow> (False, w1)) = (ok, w')"
    unfolding map_planes_Suc .
  show ?case
  proof (cases ok1)
    case False
    then have "ok = False" "w' = w1" using run one by simp_all
    then show ?thesis using e by auto
  next
    case True
    then have rec: "map_planes K w1 f bp i vb (Suc p) k = (ok, w')" using run one by simp
    note ih = Suc.IH [OF rec]
    have a1: "g_devices w' = g_devices w" using ih e by simp
    have a2: "ub w \<longrightarrow> ub w'" using ih e by simp
    have a3: "\<forall>j. j \<noteq> i \<longrightarrow> pool_read w' (Some bp) j = pool_read w (Some bp) j"
      using ih e by auto
    have a4: "\<exists>b. pool_read w' (Some bp) i = Some b \<and> buf_num_planes b = buf_num_planes b0
              \<and> index b = index b0
              \<and> (\<forall>q. p \<le> q \<and> q < p + Suc k \<longrightarrow> is_addr (start b q))
              \<and> (\<forall>q < p. start b q = start b0 q)"
      if ok: "ok" and b0: "pool_read w (Some bp) i = Some b0" for b0
    proof -
      from e True b0 obtain b1 where b1: "pool_read w1 (Some bp) i = Some b1"
        "buf_num_planes b1 = buf_num_planes b0" "index b1 = index b0" "is_addr (start b1 p)"
        "\<forall>q. q \<noteq> p \<longrightarrow> start b1 q = start b0 q"
        by blast
      from ih ok b1(1) obtain b where b: "pool_read w' (Some bp) i = Some b"
        "buf_num_planes b = buf_num_planes b1" "index b = index b1"
        "\<forall>q. Suc p \<le> q \<and> q < Suc p + k \<longrightarrow> is_addr (start b q)"
        "\<forall>q < Suc p. start b q = start b1 q"
        by blast
      have "is_addr (start b q)" if "p \<le> q" "q < p + Suc k" for q
      proof (cases "q = p")
        case True
        then show ?thesis using b(5) b1(4) by simp
      next
        case False
        then show ?thesis using b(4) that by simp
      qed
      moreover have "start b q = start b0 q" if "q < p" for q
        using b(5) b1(5) that by simp
      ultimately show ?thesis using b(1,2,3) b1(2,3) by simp
    qed
    show ?thesis using a1 a2 a3 a4 by blast
  qed
qed

lemma map_buffers_mp_Suc:
  "map_buffers_mp K w f bp i (Suc k) =
     (case map_one_mp K w f bp i of
        (True, w1) \<Rightarrow> map_buffers_mp K w1 f bp (Suc i) k
      | (False, w1) \<Rightarrow> (False, w1))"
  by (simp add: map_one_mp_def split: prod.splits sum.splits bool.splits)

lemma nat_sint_le_unat: "nat (sint (x :: 32 word)) \<le> unat x"
proof (cases "sint x < 0")
  case True
  then show ?thesis by simp
next
  case False
  then have nn: "0 \<le> sint x" by simp
  have "sint x < 2 ^ 31" using sint_lt [of x] by simp
  then have "sint x < 2 ^ 32" by simp
  then have "take_bit 32 (sint x) = sint x"
    using nn by (simp add: take_bit_int_eq_self)
  then have "uint x = sint x" using uint_sint [of x] by simp
  then show ?thesis by (simp add: unat_eq_nat_uint)
qed

lemma map_one_mp_effect:
  assumes "map_one_mp K w f bp i = (ok, w')"
  shows "g_devices w' = g_devices w \<and> (ub w \<longrightarrow> ub w')
       \<and> (\<forall>j. j \<noteq> i \<longrightarrow> pool_read w' (Some bp) j = pool_read w (Some bp) j)
       \<and> (ok \<longrightarrow> \<not> ub w' \<longrightarrow> slot_mapped w' bp i)"
proof -
  let ?x = "xioctl K (k_querybuf K) w f
              (VIDIOC_QUERYBUF V4L2_BUF_TYPE_VIDEO_CAPTURE_MPLANE (of_nat i))"
  obtain a w1 where x: "?x = (a, w1)" by (cases ?x)
  note fr = xioctl_fields' [OF x]
  have rd1: "pool_read w1 p q = pool_read w p q" for p q
    by (rule pool_read_cong) (rule fr)
  show ?thesis
  proof (cases a)
    case (Inl e)
    then have w': "ok = False" "w' = set_last_error MEDIA_ERROR_BUFFER_ERROR w1"
      using assms x by (simp_all add: map_one_mp_def)
    show ?thesis using w' fr rd1 by simp
  next
    case (Inr vb)
    let ?g = "\<lambda>b. b\<lparr>buf_num_planes := sint (vb_length vb),
                    index := sint (of_nat i :: 32 word)\<rparr>"
    let ?w2 = "pool_write w1 bp i ?g"
    have run: "map_planes K ?w2 f bp i vb 0 (unat (vb_length vb)) = (ok, w')"
      using assms x Inr by (simp add: map_one_mp_def)
    note e = map_planes_effect [OF run]
    have a1: "g_devices w' = g_devices w" using e fr by simp
    have a2: "ub w \<longrightarrow> ub w'" using e fr by (simp add: ub_pool_write)
    have a3: "\<forall>j. j \<noteq> i \<longrightarrow> pool_read w' (Some bp) j = pool_read w (Some bp) j"
      using e rd1 by (simp add: pool_read_pool_write split: option.splits)
    have a4: "slot_mapped w' bp i" if ok: ok and nub: "\<not> ub w'"
    proof (cases "pool_read w (Some bp) i")
      case None
      then have "ub ?w2" using rd1 by (simp add: ub_pool_write)
      then show ?thesis using e nub by blast
    next
      case (Some b0)
      define b1 where "b1 = ?g b0"
      have b1: "buf_num_planes b1 = sint (vb_length vb)" "index b1 = sint (of_nat i :: 32 word)"
        by (simp_all add: b1_def)
      have rb1: "pool_read ?w2 (Some bp) i = Some b1"
        using Some rd1 by (simp add: pool_read_pool_write b1_def)
      from e ok have step: "\<forall>b0. pool_read ?w2 (Some bp) i = Some b0 \<longrightarrow>
         (\<exists>b. pool_read w' (Some bp) i = Some b \<and> buf_num_planes b = buf_num_planes b0
              \<and> index b = index b0
              \<and> (\<forall>q. 0 \<le> q \<and> q < 0 + unat (vb_length vb) \<longrightarrow> is_addr (start b q))
              \<and> (\<forall>q < 0. start b q = start b0 q))"
        by (elim conjE) (erule (1) impE)
      from step [rule_format, OF rb1]
      obtain b where b: "pool_read w' (Some bp) i = Some b"
        "buf_num_planes b = buf_num_planes b1" "index b = index b1"
        "\<forall>q. 0 \<le> q \<and> q < 0 + unat (vb_length vb) \<longrightarrow> is_addr (start b q)"
        by (elim exE conjE) (rule that, assumption+)
      have "q < nat (buf_num_planes b) \<Longrightarrow> is_addr (start b q)" for q
        using b(2,4) b1(1) nat_sint_le_unat [of "vb_length vb"] by simp
      then show ?thesis
        using b(1,3) b1(2) by (simp add: slot_mapped_def fully_mapped_def list_all_iff)
    qed
    show ?thesis using a1 a2 a3 a4 by blast
  qed
qed

lemma map_buffers_mp_effect:
  "map_buffers_mp K w f bp i k = (ok, w') \<Longrightarrow>
   g_devices w' = g_devices w \<and> (ub w \<longrightarrow> ub w')
   \<and> (\<forall>j < i. pool_read w' (Some bp) j = pool_read w (Some bp) j)
   \<and> (ok \<longrightarrow> \<not> ub w' \<longrightarrow> (\<forall>j. i \<le> j \<and> j < i + k \<longrightarrow> slot_mapped w' bp j))"
proof (induction k arbitrary: w i)
  case 0
  then show ?case by auto
next
  case (Suc k)
  obtain ok1 w1 where one: "map_one_mp K w f bp i = (ok1, w1)"
    by (cases "map_one_mp K w f bp i")
  note e = map_one_mp_effect [OF one]
  from Suc.prems have run: "(case map_one_mp K w f bp i of
        (True, w1) \<Rightarrow> map_buffers_mp K w1 f bp (Suc i) k
      | (False, w1) \<Rightarrow> (False, w1)) = (ok, w')"
    unfolding map_buffers_mp_Suc .
  show ?case
  proof (cases ok1)
    case False
    then have "ok = False" "w' = w1" using run one by simp_all
    then show ?thesis using e by auto
  next
    case True
    then have rec: "map_buffers_mp K w1 f bp (Suc i) k = (ok, w')" using run one by simp
    note ih = Suc.IH [OF rec]
    have a1: "g_devices w' = g_devices w" using ih e by simp
    have a2: "ub w \<longrightarrow> ub w'" using ih e by simp
    have a3: "\<forall>j < i. pool_read w' (Some bp) j = pool_read w (Some bp) j"
      using ih e by auto
    have a4: "slot_mapped w' bp j" if "ok" "\<not> ub w'" "i \<le> j" "j < i + Suc k" for j
    proof (cases "j = i")
      case True
      have "\<not> ub w1" using ih that(2) by blast
      then have "slot_mapped w1 bp i" using e \<open>ok1\<close> by blast
      moreover have "pool_read w' (Some bp) i = pool_read w1 (Some bp) i" using ih by simp
      ultimately show ?thesis using True slot_mapped_cong by blast
    next
      case False
      then have "Suc i \<le> j \<and> j < Suc i + k" using that by simp
      then show ?thesis using ih that by blast
    qed
    show ?thesis using a1 a2 a3 a4 by blast
  qed
qed

lemma request_buffers_open:
  "is_open w handle \<Longrightarrow> 0 < n \<Longrightarrow>
   libmedia_request_buffers K w handle n (Some bp) =
     (case xioctl K (k_reqbufs K) w (fd (g_devices w (nat handle)))
             (VIDIOC_REQBUFS V4L2_BUF_TYPE_VIDEO_CAPTURE (word_of_int n)) of
        (Inl e, w1) \<Rightarrow> (- 1, set_last_error MEDIA_ERROR_BUFFER_ERROR w1)
      | (Inr granted, w1) \<Rightarrow>
          (case map_buffers K w1 (fd (g_devices w1 (nat handle))) bp 0 (unat granted) of
             (False, w2) \<Rightarrow> (- 1, w2)
           | (True, w2) \<Rightarrow>
               (sint granted,
                dev_update (nat handle)
                  (\<lambda>c. c\<lparr>buffers := Some bp, buffer_count := sint granted\<rparr>) w2)))"
  by (simp add: libmedia_request_buffers_def find_device_open)

lemma request_buffers_mp_open:
  "is_open w handle \<Longrightarrow> 0 < n \<Longrightarrow>
   libmedia_request_buffers_mp K w handle n (Some bp) =
     (case xioctl K (k_reqbufs K) w (fd (g_devices w (nat handle)))
             (VIDIOC_REQBUFS V4L2_BUF_TYPE_VIDEO_CAPTURE_MPLANE (word_of_int n)) of
        (Inl e, w1) \<Rightarrow> (- 1, set_last_error MEDIA_ERROR_BUFFER_ERROR w1)
      | (Inr granted, w1) \<Rightarrow>
          (case map_buffers_mp K w1 (fd (g_devices w1 (nat handle))) bp 0 (unat granted) of
             (False, w2) \<Rightarrow> (- 1, w2)
           | (True, w2) \<Rightarrow>
               (sint granted,
                dev_update (nat handle)
                  (\<lambda>c. c\<lparr>buffers := Some bp, buffer_count := sint granted\<rparr>) w2)))"
  by (simp add: libmedia_request_buffers_mp_def find_device_open)

lemma request_buffers_rejected:
  "\<not> is_open w handle \<or> bufs = None \<or> n \<le> 0 \<Longrightarrow>
   libmedia_request_buffers K w handle n bufs =
     (- 1, set_last_error MEDIA_ERROR_INVALID_PARAM w)"
  "\<not> is_open w handle \<or> bufs = None \<or> n \<le> 0 \<Longrightarrow>
   libmedia_request_buffers_mp K w handle n bufs =
     (- 1, set_last_error MEDIA_ERROR_INVALID_PARAM w)"
  by (auto simp: libmedia_request_buffers_def libmedia_request_buffers_mp_def find_device_def
      is_open_def set_last_error_def split: option.splits)

lemma slot_mapped_dev_update [simp]: "slot_mapped (dev_update d g w) bp j = slot_mapped w bp j"
  by (simp add: slot_mapped_def pool_read_def dev_update_def)

lemma no_release_iff:
  "no_release w w' =
     (\<exists>cs ms. trace w' = trace w @ cs \<and> list_all (\<lambda>c. \<not> is_munmap c) cs
              \<and> mapped w' = mapped w @ ms)"
proof
  assume a: "no_release w w'"
  from a have tk: "take (length (trace w)) (trace w') = trace w"
    and mk: "take (length (mapped w)) (mapped w') = mapped w"
    by (simp_all add: no_release_def)
  have "trace w @ drop (length (trace w)) (trace w') = trace w'"
    using append_take_drop_id [of "length (trace w)" "trace w'"] by (simp only: tk)
  then have t: "trace w' = trace w @ drop (length (trace w)) (trace w')" by (rule sym)
  have "mapped w @ drop (length (mapped w)) (mapped w') = mapped w'"
    using append_take_drop_id [of "length (mapped w)" "mapped w'"] by (simp only: mk)
  then have m: "mapped w' = mapped w @ drop (length (mapped w)) (mapped w')" by (rule sym)
  from a have "list_all (\<lambda>c. \<not> is_munmap c) (drop (length (trace w)) (trace w'))"
    by (simp add: no_release_def)
  with t m show "\<exists>cs ms. trace w' = trace w @ cs \<and> list_all (\<lambda>c. \<not> is_munmap c) cs
              \<and> mapped w' = mapped w @ ms"
    by blast
next
  assume "\<exists>cs ms. trace w' = trace w @ cs \<and> list_all (\<lambda>c. \<not> is_munmap c) cs
              \<and> mapped w' = mapped w @ ms"
  then show "no_release w w'" by (auto simp: no_release_def)
qed

lemma no_release_refl: "no_release w w"
  by (simp add: no_release_def)

lemma no_release_trans: "no_release a b \<Longrightarrow> no_release b c \<Longrightarrow> no_release a c"
  by (auto simp: no_release_iff)

lemma no_release_same:
  "trace w' = trace w \<Longrightarrow> mapped w' = mapped w \<Longrightarrow> no_release w w'"
  by (simp add: no_release_def)

lemma no_release_then:
  "no_release a b \<Longrightarrow> trace c = trace b \<Longrightarrow> mapped c = mapped b \<Longrightarrow> no_release a c"
  by (simp add: no_release_def)

lemma no_release_xioctl: "xioctl K ans w f req = (a, w1) \<Longrightarrow> no_release w w1"
proof -
  assume "xioctl K ans w f req = (a, w1)"
  from xioctl_world [OF this] obtain n where
    "w1 = w\<lparr>trace := trace w @ replicate (Suc n) (Sys_ioctl f req), signals := signals w - n\<rparr>"
    by blast
  then have "trace w1 = trace w @ replicate (Suc n) (Sys_ioctl f req)" "mapped w1 = mapped w"
    by simp_all
  then show ?thesis
    unfolding no_release_iff by (simp add: list_all_iff is_munmap_def)
qed

lemma no_release_mmap: "sys_mmap K w len f off = (ptr, w1) \<Longrightarrow> no_release w w1"
  by (auto simp: no_release_iff sys_mmap_def record_call_def is_munmap_def split: option.splits)

lemma no_release_map_one: "map_one K w f bp i = (ok, w') \<Longrightarrow> no_release w w'"
proof -
  assume r: "map_one K w f bp i = (ok, w')"
  let ?x = "xioctl K (k_querybuf K) w f (VIDIOC_QUERYBUF V4L2_BUF_TYPE_VIDEO_CAPTURE (of_nat i))"
  obtain a w1 where x: "?x = (a, w1)" by (cases ?x)
  note n1 = no_release_xioctl [OF x]
  show ?thesis
  proof (cases a)
    case (Inl e)
    then have "w' = set_last_error MEDIA_ERROR_BUFFER_ERROR w1"
      using r x by (simp add: map_one_def)
    then show ?thesis using n1 by (simp add: no_release_then)
  next
    case (Inr vb)
    let ?m = "sys_mmap K w1 (unat (vb_length vb)) f (unat (vb_offset vb))"
    obtain ptr w2 where m: "?m = (ptr, w2)" by (cases ?m)
    note n2 = no_release_trans [OF n1 no_release_mmap [OF m]]
    have "trace w' = trace w2 \<and> mapped w' = mapped w2"
      using r x Inr m by (auto simp: map_one_def Let_def split: if_splits)
    then show ?thesis using n2 by (simp add: no_release_then)
  qed
qed

lemma no_release_map_buffers: "map_buffers K w f bp i k = (ok, w') \<Longrightarrow> no_release w w'"
proof (induction k arbitrary: w i)
  case 0
  then show ?case by (simp add: no_release_refl)
next
  case (Suc k)
  obtain ok1 w1 where o: "map_one K w f bp i = (ok1, w1)" by (cases "map_one K w f bp i")
  note n1 = no_release_map_one [OF o]
  show ?case
  proof (cases ok1)
    case True
    then have "map_buffers K w1 f bp (Suc i) k = (ok, w')"
      using Suc.prems o unfolding map_buffers_Suc by simp
    from no_release_trans [OF n1 Suc.IH [OF this]] show ?thesis .
  next
    case False
    then have "w' = w1" using Suc.prems o unfolding map_buffers_Suc by simp
    then show ?thesis using n1 by simp
  qed
qed

lemma no_release_map_plane_one:
  "map_plane_one K w f bp i vb p = (ok, w') \<Longrightarrow> no_release w w'"
proof (cases "p < VIDEO_MAX_PLANES")
  case False
  assume "map_plane_one K w f bp i vb p = (ok, w')"
  with False have "w' = w\<lparr>ub := True\<rparr>" by (simp add: map_plane_one_def)
  then show ?thesis by (simp add: no_release_same)
next
  case True
  assume r: "map_plane_one K w f bp i vb p = (ok, w')"
  let ?m = "sys_mmap K w (unat (vb_plane_length vb p)) f (unat (vb_plane_mem_offset vb p))"
  obtain ptr w1 where m: "?m = (ptr, w1)" by (cases ?m)
  have "trace w' = trace w1 \<and> mapped w' = mapped w1"
    using r True m by (auto simp: map_plane_one_def Let_def split: if_splits)
  then show ?thesis using no_release_mmap [OF m] by (simp add: no_release_then)
qed

lemma no_release_map_planes:
  "map_planes K w f bp i vb p k = (ok, w') \<Longrightarrow> no_release w w'"
proof (induction k arbitrary: w p)
  case 0
  then show ?case by (simp add: no_release_refl)
next
  case (Suc k)
  obtain ok1 w1 where o: "map_plane_one K w f bp i vb p = (ok1, w1)"
    by (cases "map_plane_one K w f bp i vb p")
  note n1 = no_release_map_plane_one [OF o]
  show ?case
  proof (cases ok1)
    case True
    then have "map_planes K w1 f bp i vb (Suc p) k = (ok, w')"
      using Suc.prems o unfolding map_planes_Suc by simp
    from no_release_trans [OF n1 Suc.IH [OF this]] show ?thesis .
  next
    case False
    then have "w' = w1" using Suc.prems o unfolding map_planes_Suc by simp
    then show ?thesis using n1 by simp
  qed
qed

lemma no_release_map_one_mp: "map_one_mp K w f bp i = (ok, w') \<Longrightarrow> no_release w w'"
proof -
  assume r: "map_one_mp K w f bp i = (ok, w')"
  let ?x = "xioctl K (k_querybuf K) w f
              (VIDIOC_QUERYBUF V4L2_BUF_TYPE_VIDEO_CAPTURE_MPLANE (of_nat i))"
  obtain a w1 where x: "?x = (a, w1)" by (cases ?x)
  note n1 = no_release_xioctl [OF x]
  show ?thesis
  proof (cases a)
    case (Inl e)
    then have "w' = set_last_error MEDIA_ERROR_BUFFER_ERROR w1"
      using r x by (simp add: map_one_mp_def)
    then show ?thesis using n1 by (simp add: no_release_then)
  next
    case (Inr vb)
    let ?w2 = "pool_write w1 bp i
                 (\<lambda>b. b\<lparr>buf_num_planes := sint (vb_length vb),
                        index := sint (of_nat i :: 32 word)\<rparr>)"
    have n2: "no_release w ?w2" using n1 by (simp add: no_release_then)
    have "map_planes K ?w2 f bp i vb 0 (unat (vb_length vb)) = (ok, w')"
      using r x Inr by (simp add: map_one_mp_def)
    from no_release_trans [OF n2 no_release_map_planes [OF this]] show ?thesis .
  qed
qed

lemma no_release_map_buffers_mp:
  "map_buffers_mp K w f bp i k = (ok, w') \<Longrightarrow> no_release w w'"
proof (induction k arbitrary: w i)
  case 0
  then show ?case by (simp add: no_release_refl)
next
  case (Suc k)
  obtain ok1 w1 where o: "map_one_mp K w f bp i = (ok1, w1)"
    by (cases "map_one_mp K w f bp i")
  note n1 = no_release_map_one_mp [OF o]
  show ?case
  proof (cases ok1)
    case True
    then have "map_buffers_mp K w1 f bp (Suc i) k = (ok, w')"
      using Suc.prems o unfolding map_buffers_mp_Suc by simp
    from no_release_trans [OF n1 Suc.IH [OF this]] show ?thesis .
  next
    case False
    then have "w' = w1" using Suc.prems o unfolding map_buffers_mp_Suc by simp
    then show ?thesis using n1 by simp
  qed
qed

lemma no_release_request_buffers:
  "no_release w (snd (libmedia_request_buffers K w handle n bufs))"
  "no_release w (snd (libmedia_request_buffers_mp K w handle n bufs))"
proof -
  have "no_release w (snd (libmedia_request_buffers K w handle n bufs)) \<and>
        no_release w (snd (libmedia_request_buffers_mp K w handle n bufs))"
  proof (cases "is_open w handle \<and> bufs \<noteq> None \<and> 0 < n")
    case False
    then have "\<not> is_open w handle \<or> bufs = None \<or> n \<le> 0" by auto
    from request_buffers_rejected [OF this, of K] show ?thesis
      by (simp add: no_release_same)
  next
    case True
    then obtain bp where bp: "bufs = Some bp" and op: "is_open w handle" and n: "0 < n"
      by auto
    let ?d = "nat handle"
    have one: "no_release w (snd (case x of
                 (Inl e, w1) \<Rightarrow> (- 1, set_last_error MEDIA_ERROR_BUFFER_ERROR w1)
               | (Inr granted, w1) \<Rightarrow>
                   (case l granted w1 of
                      (False, w2) \<Rightarrow> (- 1 :: int, w2)
                    | (True, w2) \<Rightarrow>
                        (sint granted,
                         dev_update ?d
                           (\<lambda>c. c\<lparr>buffers := Some bp, buffer_count := sint granted\<rparr>) w2))))"
      if x: "no_release w (snd x)"
        and l: "\<And>G ok w2. l G (snd x) = (ok, w2) \<Longrightarrow> no_release (snd x) w2"
      for x :: "(kerr + 32 word) \<times> world" and l
    proof (cases x)
      case (Pair a w1)
      show ?thesis
      proof (cases a)
        case (Inl e)
        then show ?thesis using x Pair by (simp add: no_release_then)
      next
        case (Inr G)
        obtain ok w2 where r: "l G w1 = (ok, w2)" by (cases "l G w1")
        from l [of G ok w2] r Pair have "no_release w1 w2" by simp
        with x Pair have "no_release w w2" by (auto intro: no_release_trans)
        then show ?thesis using Pair Inr r
          by (cases ok) (simp_all add: no_release_then dev_update_def)
      qed
    qed
    have a: "no_release w (snd (libmedia_request_buffers K w handle n bufs))"
      unfolding bp request_buffers_open [OF op n]
      by (rule one) (auto intro: no_release_xioctl no_release_map_buffers simp: prod_eq_iff)
    have b: "no_release w (snd (libmedia_request_buffers_mp K w handle n bufs))"
      unfolding bp request_buffers_mp_open [OF op n]
      by (rule one) (auto intro: no_release_xioctl no_release_map_buffers_mp simp: prod_eq_iff)
    from a b show ?thesis by simp
  qed
  then show "no_release w (snd (libmedia_request_buffers K w handle n bufs))"
    "no_release w (snd (libmedia_request_buffers_mp K w handle n bufs))"
    by simp_all
qed

lemma request_buffers_pool:
  assumes which: "(rb = libmedia_request_buffers \<and> ty = V4L2_BUF_TYPE_VIDEO_CAPTURE) \<or>
                  (rb = libmedia_request_buffers_mp \<and> ty = V4L2_BUF_TYPE_VIDEO_CAPTURE_MPLANE)"
    and run: "rb K w handle n bufs = (r, w')"
  shows "(r = - 1 \<and> g_devices w' = g_devices w)
       \<or> (\<exists>bp G w1.
            bufs = Some bp \<and> is_open w handle \<and> 0 < n
          \<and> xioctl K (k_reqbufs K) w (fd (g_devices w (nat handle)))
               (VIDIOC_REQBUFS ty (word_of_int n)) = (Inr G, w1)
          \<and> r = sint G
          \<and> g_devices w' =
              (g_devices w)(nat handle :=
                 (g_devices w (nat handle))\<lparr>buffers := Some bp, buffer_count := sint G\<rparr>)
          \<and> (\<not> ub w' \<longrightarrow> (\<forall>j < unat G. slot_mapped w' bp j)))"
proof (cases "is_open w handle \<and> bufs \<noteq> None \<and> 0 < n")
  case False
  then have "\<not> is_open w handle \<or> bufs = None \<or> n \<le> 0" by auto
  from request_buffers_rejected [OF this, of K] which run show ?thesis by auto
next
  case True
  then obtain bp where bp: "bufs = Some bp" and op: "is_open w handle" and n: "0 < n" by auto
  let ?d = "nat handle"
  let ?x = "xioctl K (k_reqbufs K) w (fd (g_devices w ?d)) (VIDIOC_REQBUFS ty (word_of_int n))"
  obtain a w1 where x: "?x = (a, w1)" by (cases ?x)
  note fr = xioctl_fields' [OF x]
  show ?thesis
  proof (cases a)
    case (Inl e)
    then have "(r, w') = (- 1, set_last_error MEDIA_ERROR_BUFFER_ERROR w1)"
      using which run bp op n x
      by (elim disjE conjE) (simp_all add: request_buffers_open request_buffers_mp_open)
    then have "r = - 1" "w' = set_last_error MEDIA_ERROR_BUFFER_ERROR w1" by simp_all
    then show ?thesis using fr by simp
  next
    case (Inr G)
    from which consider
        (sp) "rb = libmedia_request_buffers" "ty = V4L2_BUF_TYPE_VIDEO_CAPTURE"
      | (mp) "rb = libmedia_request_buffers_mp" "ty = V4L2_BUF_TYPE_VIDEO_CAPTURE_MPLANE"
      by auto
    then obtain ok w2 where
      res: "(r, w') = (if ok
                       then (sint G, dev_update ?d
                               (\<lambda>c. c\<lparr>buffers := Some bp, buffer_count := sint G\<rparr>) w2)
                       else (- 1, w2))"
      and eff: "g_devices w2 = g_devices w1 \<and> (ub w1 \<longrightarrow> ub w2)
        \<and> (\<forall>j < 0. pool_read w2 (Some bp) j = pool_read w1 (Some bp) j)
        \<and> (ok \<longrightarrow> \<not> ub w2 \<longrightarrow> (\<forall>j. 0 \<le> j \<and> j < 0 + unat G \<longrightarrow> slot_mapped w2 bp j))"
    proof cases
      case sp
      let ?l = "map_buffers K w1 (fd (g_devices w1 ?d)) bp 0 (unat G)"
      obtain ok w2 where l: "?l = (ok, w2)" by (cases ?l)
      show ?thesis
      proof (rule that [of ok w2])
        show "(r, w') = (if ok
                       then (sint G, dev_update ?d
                               (\<lambda>c. c\<lparr>buffers := Some bp, buffer_count := sint G\<rparr>) w2)
                       else (- 1, w2))"
          using run sp bp op n x Inr l by (cases ok) (auto simp: request_buffers_open)
        show "g_devices w2 = g_devices w1 \<and> (ub w1 \<longrightarrow> ub w2)
          \<and> (\<forall>j < 0. pool_read w2 (Some bp) j = pool_read w1 (Some bp) j)
          \<and> (ok \<longrightarrow> \<not> ub w2 \<longrightarrow> (\<forall>j. 0 \<le> j \<and> j < 0 + unat G \<longrightarrow> slot_mapped w2 bp j))"
          by (rule map_buffers_effect [OF l])
      qed
    next
      case mp
      let ?l = "map_buffers_mp K w1 (fd (g_devices w1 ?d)) bp 0 (unat G)"
      obtain ok w2 where l: "?l = (ok, w2)" by (cases ?l)
      show ?thesis
      proof (rule that [of ok w2])
        show "(r, w') = (if ok
                       then (sint G, dev_update ?d
                               (\<lambda>c. c\<lparr>buffers := Some bp, buffer_count := sint G\<rparr>) w2)
                       else (- 1, w2))"
          using run mp bp op n x Inr l by (cases ok) (auto simp: request_buffers_mp_open)
        show "g_devices w2 = g_devices w1 \<and> (ub w1 \<longrightarrow> ub w2)
          \<and> (\<forall>j < 0. pool_read w2 (Some bp) j = pool_read w1 (Some bp) j)
          \<and> (ok \<longrightarrow> \<not> ub w2 \<longrightarrow> (\<forall>j. 0 \<le> j \<and> j < 0 + unat G \<longrightarrow> slot_mapped w2 bp j))"
          by (rule map_buffers_mp_effect [OF l])
      qed
    qed
    show ?thesis
    proof (cases ok)
      case False
      then have "r = - 1" "w' = w2" using res by simp_all
      then show ?thesis using eff fr by simp
    next
      case True
      then have r: "r = sint G"
        "w' = dev_update ?d (\<lambda>c. c\<lparr>buffers := Some bp, buffer_count := sint G\<rparr>) w2"
        using res by simp_all
      have g: "g_devices w' =
              (g_devices w)(?d := (g_devices w ?d)\<lparr>buffers := Some bp, buffer_count := sint G\<rparr>)"
        using r eff fr by (simp add: dev_update_def)
      have u: "ub w' = ub w2" using r by (simp add: dev_update_def)
      have m: "\<not> ub w' \<longrightarrow> (\<forall>j < unat G. slot_mapped w' bp j)"
        using eff True u r by simp
      have "bufs = Some bp \<and> is_open w handle \<and> 0 < n \<and> ?x = (Inr G, w1) \<and> r = sint G
          \<and> g_devices w' =
              (g_devices w)(?d := (g_devices w ?d)\<lparr>buffers := Some bp, buffer_count := sint G\<rparr>)
          \<and> (\<not> ub w' \<longrightarrow> (\<forall>j < unat G. slot_mapped w' bp j))"
        using bp op n x Inr r(1) g m by simp
      then show ?thesis by blast
    qed
  qed
qed

lemma xioctl_answer: "xioctl K ans w f req = (a, w') \<Longrightarrow> \<exists>h. a = ans h"
proof (induction K ans w f req arbitrary: a w' rule: xioctl.induct)
  case (1 K ans w f req)
  show ?case
  proof (cases "interrupted K w")
    case True
    let ?w1 = "record_call (Sys_ioctl f req) (w\<lparr>signals := signals w - 1\<rparr>)"
    have step: "sys_ioctl K ans w f req = (Inl EINTR, ?w1)"
      using True by (simp add: sys_ioctl_def)
    then have "xioctl K ans ?w1 f req = (a, w')"
      using "1.prems" by (simp add: xioctl.simps [of K ans w])
    from "1.IH" [OF step [symmetric] refl refl this] show ?thesis .
  next
    case False
    then have "a = ans (trace w)"
      using "1.prems" by (simp add: xioctl_uninterrupted)
    then show ?thesis by blast
  qed
qed

text \<open>With a kernel that answers every query and grants every mapping, the loops succeed.\<close>

lemma map_one_ok:
  assumes q: "\<forall>h. \<exists>vb. k_querybuf K h = Inr vb" and m: "\<forall>h. k_mmap K h \<noteq> None"
  shows "fst (map_one K w f bp i)"
proof -
  let ?x = "xioctl K (k_querybuf K) w f (VIDIOC_QUERYBUF V4L2_BUF_TYPE_VIDEO_CAPTURE (of_nat i))"
  obtain a w1 where x: "?x = (a, w1)" by (cases ?x)
  from xioctl_answer [OF x] q obtain vb where a: "a = Inr vb" by metis
  obtain v where "k_mmap K (trace w1) = Some v" using m by auto
  then show ?thesis
    using x a by (simp add: map_one_def sys_mmap_def Let_def)
qed

lemma map_buffers_ok:
  assumes q: "\<forall>h. \<exists>vb. k_querybuf K h = Inr vb" and m: "\<forall>h. k_mmap K h \<noteq> None"
  shows "fst (map_buffers K w f bp i k)"
proof (induction k arbitrary: w i)
  case 0
  show ?case by simp
next
  case (Suc k)
  obtain ok1 w1 where o: "map_one K w f bp i = (ok1, w1)" by (cases "map_one K w f bp i")
  with map_one_ok [OF q m, of w f bp i] have "ok1" by simp
  then show ?case unfolding map_buffers_Suc o using Suc.IH by simp
qed

lemma map_plane_one_ok:
  assumes m: "\<forall>h. k_mmap K h \<noteq> None" and p: "p < VIDEO_MAX_PLANES"
  shows "fst (map_plane_one K w f bp i vb p)"
proof -
  obtain v where "k_mmap K (trace w) = Some v" using m by auto
  then show ?thesis using p by (simp add: map_plane_one_def sys_mmap_def Let_def)
qed

lemma map_planes_ok:
  assumes m: "\<forall>h. k_mmap K h \<noteq> None"
  shows "p + k \<le> VIDEO_MAX_PLANES \<Longrightarrow> fst (map_planes K w f bp i vb p k)"
proof (induction k arbitrary: w p)
  case 0
  show ?case by simp
next
  case (Suc k)
  obtain ok1 w1 where o: "map_plane_one K w f bp i vb p = (ok1, w1)"
    by (cases "map_plane_one K w f bp i vb p")
  have "p < VIDEO_MAX_PLANES" using Suc.prems by simp
  with map_plane_one_ok [OF m, of p w f bp i vb] o have "ok1" by simp
  moreover have "Suc p + k \<le> VIDEO_MAX_PLANES" using Suc.prems by simp
  ultimately show ?case unfolding map_planes_Suc o using Suc.IH by simp
qed

lemma map_one_mp_ok:
  assumes q: "\<forall>h. \<exists>vb. k_querybuf K h = Inr vb \<and> unat (vb_length vb) \<le> VIDEO_MAX_PLANES"
    and m: "\<forall>h. k_mmap K h \<noteq> None"
  shows "fst (map_one_mp K w f bp i)"
proof -
  let ?x = "xioctl K (k_querybuf K) w f
              (VIDIOC_QUERYBUF V4L2_BUF_TYPE_VIDEO_CAPTURE_MPLANE (of_nat i))"
  obtain a w1 where x: "?x = (a, w1)" by (cases ?x)
  from xioctl_answer [OF x] q obtain vb where a: "a = Inr vb"
    and l: "unat (vb_length vb) \<le> VIDEO_MAX_PLANES" by metis
  from l have "0 + unat (vb_length vb) \<le> VIDEO_MAX_PLANES" by simp
  from map_planes_ok [OF m this] show ?thesis
    using x a by (simp add: map_one_mp_def)
qed

lemma map_buffers_mp_ok:
  assumes q: "\<forall>h. \<exists>vb. k_querybuf K h = Inr vb \<and> unat (vb_length vb) \<le> VIDEO_MAX_PLANES"
    and m: "\<forall>h. k_mmap K h \<noteq> None"
  shows "fst (map_buffers_mp K w f bp i k)"
proof (induction k arbitrary: w i)
  case 0
  show ?case by simp
next
  case (Suc k)
  obtain ok1 w1 where o: "map_one_mp K w f bp i = (ok1, w1)"
    by (cases "map_one_mp K w f bp i")
  with map_one_mp_ok [OF q m, of w f bp i] have "ok1" by simp
  then show ?case unfolding map_buffers_mp_Suc o using Suc.IH by simp
qed

text \<open>With an array that holds the buffers the loops write, no access leaves the arrays.\<close>

lemma pool_write_room:
  "map_option length (heap w bp) = Some L \<Longrightarrow> i < L \<Longrightarrow>
   map_option length (heap (pool_write w bp i g) bp) = Some L \<and> ub (pool_write w bp i g) = ub w"
  by (auto simp: pool_write_def split: option.splits)

lemma map_one_room:
  assumes "map_option length (heap w bp) = Some L" and "i < L"
  shows "ub (snd (map_one K w f bp i)) = ub w
       \<and> map_option length (heap (snd (map_one K w f bp i)) bp) = Some L"
proof -
  let ?x = "xioctl K (k_querybuf K) w f (VIDIOC_QUERYBUF V4L2_BUF_TYPE_VIDEO_CAPTURE (of_nat i))"
  obtain a w1 where x: "?x = (a, w1)" by (cases ?x)
  note fr = xioctl_fields' [OF x]
  show ?thesis
  proof (cases a)
    case (Inl e)
    then show ?thesis using x fr assms by (simp add: map_one_def)
  next
    case (Inr vb)
    let ?m = "sys_mmap K w1 (unat (vb_length vb)) f (unat (vb_offset vb))"
    obtain ptr w2 where mm: "?m = (ptr, w2)" by (cases ?m)
    have h2: "heap w2 = heap w" "ub w2 = ub w"
      using sys_mmap_fields(2,3) [of K w1 "unat (vb_length vb)" f "unat (vb_offset vb)"] mm fr
      by simp_all
    have s2: "map_option length (heap w2 bp) = Some L" using assms(1) h2 by simp
    let ?w3 = "pool_write w2 bp i (\<lambda>b. b\<lparr>start := (start b)(0 := ptr)\<rparr>)"
    have s3: "map_option length (heap ?w3 bp) = Some L" "ub ?w3 = ub w"
      using pool_write_room [of w2 bp L i] s2 assms(2) h2 by simp_all
    show ?thesis
    proof (cases "ptr = MAP_FAILED")
      case True
      show ?thesis
        using True x Inr mm s3 by (simp add: map_one_def Let_def)
    next
      case False
      show ?thesis
        using False x Inr mm pool_write_room [of ?w3 bp L i] s3 assms(2)
        by (simp add: map_one_def Let_def)
    qed
  qed
qed

lemma map_buffers_room:
  "map_option length (heap w bp) = Some L \<Longrightarrow> i + k \<le> L \<Longrightarrow>
   ub (snd (map_buffers K w f bp i k)) = ub w
   \<and> map_option length (heap (snd (map_buffers K w f bp i k)) bp) = Some L"
proof (induction k arbitrary: w i)
  case 0
  then show ?case by simp
next
  case (Suc k)
  obtain ok1 w1 where o: "map_one K w f bp i = (ok1, w1)" by (cases "map_one K w f bp i")
  have "i < L" using Suc.prems(2) by simp
  from map_one_room [OF Suc.prems(1) this, of K f] o
  have r1: "ub w1 = ub w" "map_option length (heap w1 bp) = Some L" by simp_all
  have "Suc i + k \<le> L" using Suc.prems(2) by simp
  from Suc.IH [OF r1(2) this] r1 show ?case
    unfolding map_buffers_Suc o by (cases ok1) simp_all
qed

lemma map_plane_one_room:
  assumes "map_option length (heap w bp) = Some L" and "i < L" and "p < VIDEO_MAX_PLANES"
  shows "ub (snd (map_plane_one K w f bp i vb p)) = ub w
       \<and> map_option length (heap (snd (map_plane_one K w f bp i vb p)) bp) = Some L"
proof -
  let ?m = "sys_mmap K w (unat (vb_plane_length vb p)) f (unat (vb_plane_mem_offset vb p))"
  obtain ptr w1 where mm: "?m = (ptr, w1)" by (cases ?m)
  have h1: "heap w1 = heap w" "ub w1 = ub w"
    using sys_mmap_fields(2,3)
      [of K w "unat (vb_plane_length vb p)" f "unat (vb_plane_mem_offset vb p)"] mm
    by simp_all
  have s1: "map_option length (heap w1 bp) = Some L" using assms(1) h1 by simp
  let ?w2 = "pool_write w1 bp i (\<lambda>b. b\<lparr>start := (start b)(p := ptr)\<rparr>)"
  have s2: "map_option length (heap ?w2 bp) = Some L" "ub ?w2 = ub w"
    using pool_write_room [of w1 bp L i] s1 assms(2) h1 by simp_all
  show ?thesis
  proof (cases "ptr = MAP_FAILED")
    case True
    show ?thesis
      using True assms(3) mm s2 by (simp add: map_plane_one_def Let_def)
  next
    case False
    show ?thesis
      using False assms(3) mm pool_write_room [of ?w2 bp L i] s2 assms(2)
      by (simp add: map_plane_one_def Let_def)
  qed
qed

lemma map_planes_room:
  "map_option length (heap w bp) = Some L \<Longrightarrow> i < L \<Longrightarrow> p + k \<le> VIDEO_MAX_PLANES \<Longrightarrow>
   ub (snd (map_planes K w f bp i vb p k)) = ub w
   \<and> map_option length (heap (snd (map_planes K w f bp i vb p k)) bp) = Some L"
proof (induction k arbitrary: w p)
  case 0
  then show ?case by simp
next
  case (Suc k)
  obtain ok1 w1 where o: "map_plane_one K w f bp i vb p = (ok1, w1)"
    by (cases "map_plane_one K w f bp i vb p")
  have "p < VIDEO_MAX_PLANES" using Suc.prems(3) by simp
  from map_plane_one_room [OF Suc.prems(1) Suc.prems(2) this, of K f vb] o
  have r1: "ub w1 = ub w" "map_option length (heap w1 bp) = Some L" by simp_all
  have "Suc p + k \<le> VIDEO_MAX_PLANES" using Suc.prems(3) by simp
  from Suc.IH [OF r1(2) Suc.prems(2) this] r1 show ?case
    unfolding map_planes_Suc o by (cases ok1) simp_all
qed

lemma map_one_mp_room:
  assumes "map_option length (heap w bp) = Some L" and "i < L"
    and q: "\<forall>h vb. k_querybuf K h = Inr vb \<longrightarrow> unat (vb_length vb) \<le> VIDEO_MAX_PLANES"
  shows "ub (snd (map_one_mp K w f bp i)) = ub w
       \<and> map_option length (heap (snd (map_one_mp K w f bp i)) bp) = Some L"
proof -
  let ?x = "xioctl K (k_querybuf K) w f
              (VIDIOC_QUERYBUF V4L2_BUF_TYPE_VIDEO_CAPTURE_MPLANE (of_nat i))"
  obtain a w1 where x: "?x = (a, w1)" by (cases ?x)
  note fr = xioctl_fields' [OF x]
  show ?thesis
  proof (cases a)
    case (Inl e)
    then show ?thesis using x fr assms by (simp add: map_one_mp_def)
  next
    case (Inr vb)
    from xioctl_answer [OF x] Inr q have l: "0 + unat (vb_length vb) \<le> VIDEO_MAX_PLANES"
      by (metis add_0)
    let ?w2 = "pool_write w1 bp i
                 (\<lambda>b. b\<lparr>buf_num_planes := sint (vb_length vb),
                        index := sint (of_nat i :: 32 word)\<rparr>)"
    have s2: "map_option length (heap ?w2 bp) = Some L" "ub ?w2 = ub w"
      using pool_write_room [of w1 bp L i] assms(1,2) fr by simp_all
    from map_planes_room [OF s2(1) assms(2) l, of K f vb] s2(2) show ?thesis
      using x Inr by (simp add: map_one_mp_def)
  qed
qed

lemma map_buffers_mp_room:
  assumes q: "\<forall>h vb. k_querybuf K h = Inr vb \<longrightarrow> unat (vb_length vb) \<le> VIDEO_MAX_PLANES"
  shows "map_option length (heap w bp) = Some L \<Longrightarrow> i + k \<le> L \<Longrightarrow>
   ub (snd (map_buffers_mp K w f bp i k)) = ub w
   \<and> map_option length (heap (snd (map_buffers_mp K w f bp i k)) bp) = Some L"
proof (induction k arbitrary: w i)
  case 0
  then show ?case by simp
next
  case (Suc k)
  obtain ok1 w1 where o: "map_one_mp K w f bp i = (ok1, w1)"
    by (cases "map_one_mp K w f bp i")
  have "i < L" using Suc.prems(2) by simp
  from map_one_mp_room [OF Suc.prems(1) this q, of f] o
  have r1: "ub w1 = ub w" "map_option length (heap w1 bp) = Some L" by simp_all
  have "Suc i + k \<le> L" using Suc.prems(2) by simp
  from Suc.IH [OF r1(2) this] r1 show ?case
    unfolding map_buffers_mp_Suc o by (cases ok1) simp_all
qed

text \<open>
  What the two functions return once the hardware has granted \<open>G\<close> buffers: the result
  of the mapping loop decides, the requested count plays no part.
\<close>

lemma request_buffers_granted:
  assumes which: "(rb = libmedia_request_buffers \<and> ty = V4L2_BUF_TYPE_VIDEO_CAPTURE
                    \<and> loop = map_buffers) \<or>
                  (rb = libmedia_request_buffers_mp \<and> ty = V4L2_BUF_TYPE_VIDEO_CAPTURE_MPLANE
                    \<and> loop = map_buffers_mp)"
    and op: "is_open w handle" and n: "0 < n"
    and x: "xioctl K (k_reqbufs K) w (fd (g_devices w (nat handle)))
              (VIDIOC_REQBUFS ty (word_of_int n)) = (Inr G, w1)"
  shows "rb K w handle n (Some bp) =
           (if fst (loop K w1 (fd (g_devices w (nat handle))) bp 0 (unat G))
            then (sint G,
                  dev_update (nat handle)
                    (\<lambda>c. c\<lparr>buffers := Some bp, buffer_count := sint G\<rparr>)
                    (snd (loop K w1 (fd (g_devices w (nat handle))) bp 0 (unat G))))
            else (- 1, snd (loop K w1 (fd (g_devices w (nat handle))) bp 0 (unat G))))"
proof -
  have g: "g_devices w1 = g_devices w" using xioctl_fields' [OF x] by simp
  from which show ?thesis
  proof (elim disjE conjE)
    assume a: "rb = libmedia_request_buffers" "ty = V4L2_BUF_TYPE_VIDEO_CAPTURE"
      "loop = map_buffers"
    show ?thesis
      using x unfolding a request_buffers_open [OF op n]
      by (cases "map_buffers K w1 (fd (g_devices w (nat handle))) bp 0 (unat G)")
         (simp add: g)
  next
    assume a: "rb = libmedia_request_buffers_mp" "ty = V4L2_BUF_TYPE_VIDEO_CAPTURE_MPLANE"
      "loop = map_buffers_mp"
    show ?thesis
      using x unfolding a request_buffers_mp_open [OF op n]
      by (cases "map_buffers_mp K w1 (fd (g_devices w (nat handle))) bp 0 (unat G)")
         (simp add: g)
  qed
qed

lemma loop_devices:
  assumes "(rb = libmedia_request_buffers \<and> ty = V4L2_BUF_TYPE_VIDEO_CAPTURE
             \<and> loop = map_buffers) \<or>
           (rb = libmedia_request_buffers_mp \<and> ty = V4L2_BUF_TYPE_VIDEO_CAPTURE_MPLANE
             \<and> loop = map_buffers_mp)"
  shows "g_devices (snd (loop K w f bp i k)) = g_devices w"
  using assms
    map_buffers_effect [of K w f bp i k "fst (map_buffers K w f bp i k)"
      "snd (map_buffers K w f bp i k)"]
    map_buffers_mp_effect [of K w f bp i k "fst (map_buffers_mp K w f bp i k)"
      "snd (map_buffers_mp K w f bp i k)"]
  by (elim disjE conjE) simp_all

lemma loop_ok:
  assumes "(rb = libmedia_request_buffers \<and> ty = V4L2_BUF_TYPE_VIDEO_CAPTURE
             \<and> loop = map_buffers) \<or>
           (rb = libmedia_request_buffers_mp \<and> ty = V4L2_BUF_TYPE_VIDEO_CAPTURE_MPLANE
             \<and> loop = map_buffers_mp)"
    and q: "\<forall>h. \<exists>vb. k_querybuf K h = Inr vb \<and>
              (ty = V4L2_BUF_TYPE_VIDEO_CAPTURE_MPLANE \<longrightarrow>
                 unat (vb_length vb) \<le> VIDEO_MAX_PLANES)"
    and m: "\<forall>h. k_mmap K h \<noteq> None"
  shows "fst (loop K w f bp i k)"
  using assms(1)
proof (elim disjE conjE)
  assume a: "loop = map_buffers"
  have "\<forall>h. \<exists>vb. k_querybuf K h = Inr vb" using q by blast
  from map_buffers_ok [OF this m] show ?thesis unfolding a .
next
  assume a: "ty = V4L2_BUF_TYPE_VIDEO_CAPTURE_MPLANE" "loop = map_buffers_mp"
  have "\<forall>h. \<exists>vb. k_querybuf K h = Inr vb \<and> unat (vb_length vb) \<le> VIDEO_MAX_PLANES"
    using q a(1) by simp
  from map_buffers_mp_ok [OF this m] show ?thesis unfolding a .
qed

lemma loop_room:
  assumes "(rb = libmedia_request_buffers \<and> ty = V4L2_BUF_TYPE_VIDEO_CAPTURE
             \<and> loop = map_buffers) \<or>
           (rb = libmedia_request_buffers_mp \<and> ty = V4L2_BUF_TYPE_VIDEO_CAPTURE_MPLANE
             \<and> loop = map_buffers_mp)"
    and q: "ty = V4L2_BUF_TYPE_VIDEO_CAPTURE_MPLANE \<longrightarrow>
              (\<forall>h vb. k_querybuf K h = Inr vb \<longrightarrow> unat (vb_length vb) \<le> VIDEO_MAX_PLANES)"
    and h: "heap w bp = Some arr" and k: "k \<le> length arr"
  shows "ub (snd (loop K w f bp 0 k)) = ub w"
proof -
  have s: "map_option length (heap w bp) = Some (length arr)" using h by simp
  have l: "0 + k \<le> length arr" using k by simp
  from assms(1) show ?thesis
  proof (elim disjE conjE)
    assume a: "loop = map_buffers"
    from map_buffers_room [OF s l, of K f] show ?thesis unfolding a by simp
  next
    assume a: "ty = V4L2_BUF_TYPE_VIDEO_CAPTURE_MPLANE" "loop = map_buffers_mp"
    have "\<forall>h vb. k_querybuf K h = Inr vb \<longrightarrow> unat (vb_length vb) \<le> VIDEO_MAX_PLANES"
      using q a(1) by simp
    from map_buffers_mp_room [OF this s l, of f] show ?thesis unfolding a by simp
  qed
qed

text \<open>
  C1, as the code has it. \<open>libmedia_request_buffers\<close> and \<open>libmedia_request_buffers_mp\<close>
  never compare the grant with the requested count \<open>n\<close> and never release a mapping.
  A call on a handle that is not open, with a null array or with \<open>n \<le> 0\<close>, and a call
  whose \<open>VIDIOC_REQBUFS\<close> the hardware rejects, return -1. Once the hardware has granted
  \<open>G\<close> buffers the mapping loop alone decides: if it stops at a failed \<open>VIDIOC_QUERYBUF\<close> or
  \<open>mmap\<close> the call returns -1 and leaves every device record, and so the recorded pool,
  as it was; if it runs through, the call returns \<open>G\<close> (as an \<open>int\<close>), also when \<open>G\<close> is
  below \<open>n\<close>, and records the caller's array with count \<open>G\<close> on the device. The loop runs
  through whenever the kernel answers every \<open>VIDIOC_QUERYBUF\<close> (in the multi-planar case
  with at most \<open>VIDEO_MAX_PLANES\<close> planes) and grants every \<open>mmap\<close>. When the caller's array
  holds at least \<open>G\<close> entries (and no multi-planar buffer has more than \<open>VIDEO_MAX_PLANES\<close>
  planes) no access leaves the arrays; and unless one did, after a success each of the
  first \<open>G\<close> entries of the array carries its index and has every one of its planes
  mapped. In every case the call releases nothing: it makes no \<open>munmap\<close> call, so
  whatever it mapped before a failure stays mapped, and every mapping that was in place
  before the call is in place after it.
\<close>

theorem request_buffers_outcome:
  assumes which: "(rb = libmedia_request_buffers \<and> ty = V4L2_BUF_TYPE_VIDEO_CAPTURE
                    \<and> loop = map_buffers) \<or>
                  (rb = libmedia_request_buffers_mp \<and> ty = V4L2_BUF_TYPE_VIDEO_CAPTURE_MPLANE
                    \<and> loop = map_buffers_mp)"
    and run: "rb K w handle n bufs = (r, w')"
  shows "((r = - 1 \<and> g_devices w' = g_devices w)
       \<or> (\<exists>bp G w1.
            bufs = Some bp \<and> is_open w handle \<and> 0 < n
          \<and> xioctl K (k_reqbufs K) w (fd (g_devices w (nat handle)))
               (VIDIOC_REQBUFS ty (word_of_int n)) = (Inr G, w1)
          \<and> r = sint G
          \<and> g_devices w' =
              (g_devices w)(nat handle :=
                 (g_devices w (nat handle))\<lparr>buffers := Some bp, buffer_count := sint G\<rparr>)
          \<and> (\<not> ub w' \<longrightarrow> (\<forall>j < unat G. slot_mapped w' bp j))))
       \<and> no_release w w'
       \<and> (\<not> (is_open w handle \<and> bufs \<noteq> None \<and> 0 < n) \<longrightarrow>
            r = - 1 \<and> w' = set_last_error MEDIA_ERROR_INVALID_PARAM w)
       \<and> (\<forall>bp e w1.
            bufs = Some bp \<and> is_open w handle \<and> 0 < n
          \<and> xioctl K (k_reqbufs K) w (fd (g_devices w (nat handle)))
               (VIDIOC_REQBUFS ty (word_of_int n)) = (Inl e, w1) \<longrightarrow>
            r = - 1 \<and> w' = set_last_error MEDIA_ERROR_BUFFER_ERROR w1)
       \<and> (\<forall>bp G w1.
            bufs = Some bp \<and> is_open w handle \<and> 0 < n
          \<and> xioctl K (k_reqbufs K) w (fd (g_devices w (nat handle)))
               (VIDIOC_REQBUFS ty (word_of_int n)) = (Inr G, w1) \<longrightarrow>
            (if fst (loop K w1 (fd (g_devices w (nat handle))) bp 0 (unat G))
             then r = sint G \<and>
                  g_devices w' =
                    (g_devices w)(nat handle :=
                       (g_devices w (nat handle))\<lparr>buffers := Some bp, buffer_count := sint G\<rparr>)
             else r = - 1 \<and> g_devices w' = g_devices w)
          \<and> ((\<forall>h. \<exists>vb. k_querybuf K h = Inr vb \<and>
                   (ty = V4L2_BUF_TYPE_VIDEO_CAPTURE_MPLANE \<longrightarrow>
                      unat (vb_length vb) \<le> VIDEO_MAX_PLANES)) \<and>
               (\<forall>h. k_mmap K h \<noteq> None) \<longrightarrow>
               fst (loop K w1 (fd (g_devices w (nat handle))) bp 0 (unat G)))
          \<and> (\<forall>arr. heap w bp = Some arr \<and> unat G \<le> length arr \<and>
                 (ty = V4L2_BUF_TYPE_VIDEO_CAPTURE_MPLANE \<longrightarrow>
                    (\<forall>h vb. k_querybuf K h = Inr vb \<longrightarrow>
                       unat (vb_length vb) \<le> VIDEO_MAX_PLANES)) \<longrightarrow>
                 ub w' = ub w))"
proof -
  from which have which': "(rb = libmedia_request_buffers \<and> ty = V4L2_BUF_TYPE_VIDEO_CAPTURE) \<or>
      (rb = libmedia_request_buffers_mp \<and> ty = V4L2_BUF_TYPE_VIDEO_CAPTURE_MPLANE)"
    by blast
  have p1: "(r = - 1 \<and> g_devices w' = g_devices w)
       \<or> (\<exists>bp G w1.
            bufs = Some bp \<and> is_open w handle \<and> 0 < n
          \<and> xioctl K (k_reqbufs K) w (fd (g_devices w (nat handle)))
               (VIDIOC_REQBUFS ty (word_of_int n)) = (Inr G, w1)
          \<and> r = sint G
          \<and> g_devices w' =
              (g_devices w)(nat handle :=
                 (g_devices w (nat handle))\<lparr>buffers := Some bp, buffer_count := sint G\<rparr>)
          \<and> (\<not> ub w' \<longrightarrow> (\<forall>j < unat G. slot_mapped w' bp j)))"
    by (rule request_buffers_pool [OF which' run])
  have "w' = snd (rb K w handle n bufs)" using run by simp
  then have p2: "no_release w w'"
    using which' no_release_request_buffers [of w K handle n bufs] by auto
  have p3: "\<not> (is_open w handle \<and> bufs \<noteq> None \<and> 0 < n) \<longrightarrow>
            r = - 1 \<and> w' = set_last_error MEDIA_ERROR_INVALID_PARAM w"
  proof
    assume "\<not> (is_open w handle \<and> bufs \<noteq> None \<and> 0 < n)"
    then have "\<not> is_open w handle \<or> bufs = None \<or> n \<le> 0" by auto
    from request_buffers_rejected [OF this, of K] which' run
    show "r = - 1 \<and> w' = set_last_error MEDIA_ERROR_INVALID_PARAM w" by auto
  qed
  have p4: "\<forall>bp e w1.
            bufs = Some bp \<and> is_open w handle \<and> 0 < n
          \<and> xioctl K (k_reqbufs K) w (fd (g_devices w (nat handle)))
               (VIDIOC_REQBUFS ty (word_of_int n)) = (Inl e, w1) \<longrightarrow>
            r = - 1 \<and> w' = set_last_error MEDIA_ERROR_BUFFER_ERROR w1"
    using which' run
    by (elim disjE conjE) (auto simp: request_buffers_open request_buffers_mp_open)
  have p5: "(if fst (loop K w1 (fd (g_devices w (nat handle))) bp 0 (unat G))
             then r = sint G \<and>
                  g_devices w' =
                    (g_devices w)(nat handle :=
                       (g_devices w (nat handle))\<lparr>buffers := Some bp, buffer_count := sint G\<rparr>)
             else r = - 1 \<and> g_devices w' = g_devices w)
          \<and> ((\<forall>h. \<exists>vb. k_querybuf K h = Inr vb \<and>
                   (ty = V4L2_BUF_TYPE_VIDEO_CAPTURE_MPLANE \<longrightarrow>
                      unat (vb_length vb) \<le> VIDEO_MAX_PLANES)) \<and>
               (\<forall>h. k_mmap K h \<noteq> None) \<longrightarrow>
               fst (loop K w1 (fd (g_devices w (nat handle))) bp 0 (unat G)))
          \<and> (\<forall>arr. heap w bp = Some arr \<and> unat G \<le> length arr \<and>
                 (ty = V4L2_BUF_TYPE_VIDEO_CAPTURE_MPLANE \<longrightarrow>
                    (\<forall>h vb. k_querybuf K h = Inr vb \<longrightarrow>
                       unat (vb_length vb) \<le> VIDEO_MAX_PLANES)) \<longrightarrow>
                 ub w' = ub w)"
    if b: "bufs = Some bp" and op: "is_open w handle" and n: "0 < n"
      and x: "xioctl K (k_reqbufs K) w (fd (g_devices w (nat handle)))
               (VIDIOC_REQBUFS ty (word_of_int n)) = (Inr G, w1)"
    for bp G w1
  proof -
    let ?l = "loop K w1 (fd (g_devices w (nat handle))) bp 0 (unat G)"
    note fr = xioctl_fields' [OF x]
    have res: "(r, w') =
           (if fst ?l
            then (sint G,
                  dev_update (nat handle)
                    (\<lambda>c. c\<lparr>buffers := Some bp, buffer_count := sint G\<rparr>) (snd ?l))
            else (- 1, snd ?l))"
      using request_buffers_granted [OF which op n x, of bp] run b by simp
    have gd: "g_devices (snd ?l) = g_devices w"
      using loop_devices [OF which, of K w1] fr by simp
    have a: "if fst ?l
             then r = sint G \<and>
                  g_devices w' =
                    (g_devices w)(nat handle :=
                       (g_devices w (nat handle))\<lparr>buffers := Some bp, buffer_count := sint G\<rparr>)
             else r = - 1 \<and> g_devices w' = g_devices w"
      using res gd by (cases "fst ?l") (simp_all add: dev_update_def)
    have c: "fst ?l"
      if "\<forall>h. \<exists>vb. k_querybuf K h = Inr vb \<and>
                   (ty = V4L2_BUF_TYPE_VIDEO_CAPTURE_MPLANE \<longrightarrow>
                      unat (vb_length vb) \<le> VIDEO_MAX_PLANES)"
        "\<forall>h. k_mmap K h \<noteq> None"
      by (rule loop_ok [OF which that])
    have d: "ub w' = ub w"
      if h: "heap w bp = Some arr" and k: "unat G \<le> length arr"
        and q: "ty = V4L2_BUF_TYPE_VIDEO_CAPTURE_MPLANE \<longrightarrow>
                    (\<forall>h vb. k_querybuf K h = Inr vb \<longrightarrow>
                       unat (vb_length vb) \<le> VIDEO_MAX_PLANES)"
      for arr
    proof -
      have h1: "heap w1 bp = Some arr" using h fr by simp
      have "ub (snd ?l) = ub w1" by (rule loop_room [OF which q h1 k])
      then have "ub (snd ?l) = ub w" using fr by simp
      then show ?thesis using res by (cases "fst ?l") (simp_all add: dev_update_def)
    qed
    from a c d show ?thesis by blast
  qed
  from p5 have p5': "\<forall>bp G w1.
            bufs = Some bp \<and> is_open w handle \<and> 0 < n
          \<and> xioctl K (k_reqbufs K) w (fd (g_devices w (nat handle)))
               (VIDIOC_REQBUFS ty (word_of_int n)) = (Inr G, w1) \<longrightarrow>
            (if fst (loop K w1 (fd (g_devices w (nat handle))) bp 0 (unat G))
             then r = sint G \<and>
                  g_devices w' =
                    (g_devices w)(nat handle :=
                       (g_devices w (nat handle))\<lparr>buffers := Some bp, buffer_count := sint G\<rparr>)
             else r = - 1 \<and> g_devices w' = g_devices w)
          \<and> ((\<forall>h. \<exists>vb. k_querybuf K h = Inr vb \<and>
                   (ty = V4L2_BUF_TYPE_VIDEO_CAPTURE_MPLANE \<longrightarrow>
                      unat (vb_length vb) \<le> VIDEO_MAX_PLANES)) \<and>
               (\<forall>h. k_mmap K h \<noteq> None) \<longrightarrow>
               fst (loop K w1 (fd (g_devices w (nat handle))) bp 0 (unat G)))
          \<and> (\<forall>arr. heap w bp = Some arr \<and> unat G \<le> length arr \<and>
                 (ty = V4L2_BUF_TYPE_VIDEO_CAPTURE_MPLANE \<longrightarrow>
                    (\<forall>h vb. k_querybuf K h = Inr vb \<longrightarrow>
                       unat (vb_length vb) \<le> VIDEO_MAX_PLANES)) \<longrightarrow>
                 ub w' = ub w)"
    by (intro allI impI) (elim conjE, rule p5)
  show ?thesis
    by (intro conjI) (rule p1 p2 p3 p4 p5')+
qed

lemma is_open_alloc_world: "is_open alloc_world 0"
  by (simp add: is_open_def alloc_world_def opened_world_def video0_def)

lemma request_example:
  "fst (libmedia_request_buffers sp_kernel alloc_world 0 4 (Some 100)) = 2"
  "buffer_count (g_devices (snd (libmedia_request_buffers sp_kernel alloc_world 0 4 (Some 100))) 0)
     = 2"
  "mapped (snd (libmedia_request_buffers sp_kernel alloc_world 0 4 (Some 100))) =
     [(16384, 614400), (24576, 614400)]"
proof -
  let ?w1 = "record_call (Sys_ioctl 3 (VIDIOC_REQBUFS V4L2_BUF_TYPE_VIDEO_CAPTURE 4)) alloc_world"
  have x: "xioctl sp_kernel (k_reqbufs sp_kernel) alloc_world (fd (g_devices alloc_world (nat 0)))
             (VIDIOC_REQBUFS V4L2_BUF_TYPE_VIDEO_CAPTURE (word_of_int 4)) = (Inr 2, ?w1)"
    by (simp add: xioctl_uninterrupted interrupted_def sp_kernel_def idle_kernel_def
        alloc_world_def opened_world_def video0_def)
  have f: "fd (g_devices ?w1 (nat 0)) = 3"
    by (simp add: record_call_def alloc_world_def opened_world_def video0_def)
  have t: "map_buffers sp_kernel ?w1 3 100 0 2 = map_buffers sp_kernel ?w1 3 100 0 (Suc (Suc 0))"
    by (simp only: numeral_2_eq_2)
  obtain w2 where m: "map_buffers sp_kernel ?w1 3 100 0 2 = (True, w2)"
    and mp: "mapped w2 = [(16384, 614400), (24576, 614400)]"
    unfolding t
    by (simp add: xioctl_uninterrupted interrupted_def sys_mmap_def pool_write_def
        record_call_def sp_kernel_def idle_kernel_def buf_reply_def alloc_world_def
        opened_world_def)
  have e: "libmedia_request_buffers sp_kernel alloc_world 0 4 (Some 100) =
     (2, dev_update 0 (\<lambda>c. c\<lparr>buffers := Some 100, buffer_count := 2\<rparr>) w2)"
    unfolding request_buffers_open [OF is_open_alloc_world, of 4 sp_kernel 100, simplified]
    using x f by (simp add: m del: map_buffers.simps)
  show "fst (libmedia_request_buffers sp_kernel alloc_world 0 4 (Some 100)) = 2"
    "buffer_count (g_devices (snd (libmedia_request_buffers sp_kernel alloc_world 0 4 (Some 100))) 0)
       = 2"
    "mapped (snd (libmedia_request_buffers sp_kernel alloc_world 0 4 (Some 100))) =
       [(16384, 614400), (24576, 614400)]"
    using mp by (simp_all add: e dev_update_def)
qed

lemma request_leak_example:
  "fst (libmedia_request_buffers leaky_kernel alloc_world 0 4 (Some 100)) = - 1"
  "mapped (snd (libmedia_request_buffers leaky_kernel alloc_world 0 4 (Some 100))) =
     [(4096, 614400)]"
  "libmedia_get_last_error (snd (libmedia_request_buffers leaky_kernel alloc_world 0 4 (Some 100)))
     = MEDIA_ERROR_OUT_OF_MEMORY"
  "buffers (g_devices (snd (libmedia_request_buffers leaky_kernel alloc_world 0 4 (Some 100))) 0)
     = None"
proof -
  let ?w1 = "record_call (Sys_ioctl 3 (VIDIOC_REQBUFS V4L2_BUF_TYPE_VIDEO_CAPTURE 4)) alloc_world"
  have x: "xioctl leaky_kernel (k_reqbufs leaky_kernel) alloc_world
             (fd (g_devices alloc_world (nat 0)))
             (VIDIOC_REQBUFS V4L2_BUF_TYPE_VIDEO_CAPTURE (word_of_int 4)) = (Inr 2, ?w1)"
    by (simp add: xioctl_uninterrupted interrupted_def leaky_kernel_def sp_kernel_def
        idle_kernel_def alloc_world_def opened_world_def video0_def)
  have f: "fd (g_devices ?w1 (nat 0)) = 3"
    by (simp add: record_call_def alloc_world_def opened_world_def video0_def)
  have t: "map_buffers leaky_kernel ?w1 3 100 0 2 =
           map_buffers leaky_kernel ?w1 3 100 0 (Suc (Suc 0))"
    by (simp only: numeral_2_eq_2)
  obtain w2 where m: "map_buffers leaky_kernel ?w1 3 100 0 2 = (False, w2)"
    and mp: "mapped w2 = [(4096, 614400)]" "g_last_error w2 = MEDIA_ERROR_OUT_OF_MEMORY"
      "buffers (g_devices w2 0) = None"
    unfolding t
    by (simp add: xioctl_uninterrupted interrupted_def sys_mmap_def pool_write_def
        record_call_def set_last_error_def leaky_kernel_def sp_kernel_def idle_kernel_def
        buf_reply_def alloc_world_def opened_world_def video0_def)
  have e: "libmedia_request_buffers leaky_kernel alloc_world 0 4 (Some 100) = (- 1, w2)"
    unfolding request_buffers_open [OF is_open_alloc_world, of 4 leaky_kernel 100, simplified]
    using x f by (simp add: m del: map_buffers.simps)
  show "fst (libmedia_request_buffers leaky_kernel alloc_world 0 4 (Some 100)) = - 1"
    "mapped (snd (libmedia_request_buffers leaky_kernel alloc_world 0 4 (Some 100))) =
       [(4096, 614400)]"
    "libmedia_get_last_error (snd (libmedia_request_buffers leaky_kernel alloc_world 0 4 (Some 100)))
       = MEDIA_ERROR_OUT_OF_MEMORY"
    "buffers (g_devices (snd (libmedia_request_buffers leaky_kernel alloc_world 0 4 (Some 100))) 0)
       = None"
    using mp by (simp_all add: e libmedia_get_last_error_def)
qed

lemma request_mp_example:
  "fst (libmedia_request_buffers_mp idle_kernel alloc_world 0 4 (Some 100)) = 2"
  "buffer_count
     (g_devices (snd (libmedia_request_buffers_mp idle_kernel alloc_world 0 4 (Some 100))) 0) = 2"
proof -
  let ?w1 = "record_call (Sys_ioctl 3 (VIDIOC_REQBUFS V4L2_BUF_TYPE_VIDEO_CAPTURE_MPLANE 4))
               alloc_world"
  let ?l = "map_buffers_mp idle_kernel ?w1 (fd (g_devices alloc_world (nat 0))) 100 0
              (unat (2 :: 32 word))"
  have wl: "(libmedia_request_buffers_mp = libmedia_request_buffers \<and>
               V4L2_BUF_TYPE_VIDEO_CAPTURE_MPLANE = V4L2_BUF_TYPE_VIDEO_CAPTURE \<and>
               map_buffers_mp = map_buffers) \<or>
            (libmedia_request_buffers_mp = libmedia_request_buffers_mp \<and>
               V4L2_BUF_TYPE_VIDEO_CAPTURE_MPLANE = V4L2_BUF_TYPE_VIDEO_CAPTURE_MPLANE \<and>
               map_buffers_mp = map_buffers_mp)"
    by simp
  have n: "0 < (4 :: int)" by simp
  have x: "xioctl idle_kernel (k_reqbufs idle_kernel) alloc_world
             (fd (g_devices alloc_world (nat 0)))
             (VIDIOC_REQBUFS V4L2_BUF_TYPE_VIDEO_CAPTURE_MPLANE (word_of_int 4)) = (Inr 2, ?w1)"
    by (simp add: xioctl_uninterrupted interrupted_def idle_kernel_def
        alloc_world_def opened_world_def video0_def)
  have q: "\<forall>h. \<exists>vb. k_querybuf idle_kernel h = Inr vb \<and>
             (V4L2_BUF_TYPE_VIDEO_CAPTURE_MPLANE = V4L2_BUF_TYPE_VIDEO_CAPTURE_MPLANE \<longrightarrow>
                unat (vb_length vb) \<le> VIDEO_MAX_PLANES)"
    by (simp add: idle_kernel_def buf_reply_def VIDEO_MAX_PLANES_def)
  have m: "\<forall>h. k_mmap idle_kernel h \<noteq> None" by (simp add: idle_kernel_def)
  have ok: "fst ?l" by (rule loop_ok [OF wl q m])
  have e: "libmedia_request_buffers_mp idle_kernel alloc_world 0 4 (Some 100) =
           (sint (2 :: 32 word),
            dev_update (nat 0) (\<lambda>c. c\<lparr>buffers := Some 100, buffer_count := sint (2 :: 32 word)\<rparr>)
              (snd ?l))"
    unfolding request_buffers_granted [OF wl is_open_alloc_world n x, of 100]
    using ok by (simp only: if_True)
  show "fst (libmedia_request_buffers_mp idle_kernel alloc_world 0 4 (Some 100)) = 2"
    unfolding e by simp
  show "buffer_count
     (g_devices (snd (libmedia_request_buffers_mp idle_kernel alloc_world 0 4 (Some 100))) 0) = 2"
    unfolding e by (simp add: dev_update_def)
qed

lemma request_mp_leak_example:
  "fst (libmedia_request_buffers_mp leaky_mp_kernel alloc_world 0 4 (Some 100)) = - 1"
  "mapped (snd (libmedia_request_buffers_mp leaky_mp_kernel alloc_world 0 4 (Some 100))) =
     [(4096, 614400)]"
proof -
  let ?w1 = "record_call (Sys_ioctl 3 (VIDIOC_REQBUFS V4L2_BUF_TYPE_VIDEO_CAPTURE_MPLANE 4))
               alloc_world"
  have x: "xioctl leaky_mp_kernel (k_reqbufs leaky_mp_kernel) alloc_world
             (fd (g_devices alloc_world (nat 0)))
             (VIDIOC_REQBUFS V4L2_BUF_TYPE_VIDEO_CAPTURE_MPLANE (word_of_int 4)) = (Inr 2, ?w1)"
    by (simp add: xioctl_uninterrupted interrupted_def leaky_mp_kernel_def
        idle_kernel_def alloc_world_def opened_world_def video0_def)
  have f: "fd (g_devices ?w1 (nat 0)) = 3"
    by (simp add: record_call_def alloc_world_def opened_world_def video0_def)
  have t: "map_buffers_mp leaky_mp_kernel ?w1 3 100 0 2 =
           map_buffers_mp leaky_mp_kernel ?w1 3 100 0 (Suc (Suc 0))"
    by (simp only: numeral_2_eq_2)
  obtain w2 where m: "map_buffers_mp leaky_mp_kernel ?w1 3 100 0 2 = (False, w2)"
    and mp: "mapped w2 = [(4096, 614400)]"
    unfolding t
    by (simp add: xioctl_uninterrupted interrupted_def sys_mmap_def pool_write_def
        record_call_def set_last_error_def leaky_mp_kernel_def idle_kernel_def
        buf_reply_def alloc_world_def opened_world_def video0_def VIDEO_MAX_PLANES_def)
  have e: "libmedia_request_buffers_mp leaky_mp_kernel alloc_world 0 4 (Some 100) = (- 1, w2)"
    unfolding request_buffers_mp_open [OF is_open_alloc_world, of 4 leaky_mp_kernel 100, simplified]
    using x f by (simp add: m del: map_buffers_mp.simps)
  show "fst (libmedia_request_buffers_mp leaky_mp_kernel alloc_world 0 4 (Some 100)) = - 1"
    "mapped (snd (libmedia_request_buffers_mp leaky_mp_kernel alloc_world 0 4 (Some 100))) =
       [(4096, 614400)]"
    using mp by (simp_all add: e)
qed

theorem request_buffers_outcome_witness:
  "fst (libmedia_request_buffers sp_kernel alloc_world 0 4 (Some 100)) = 2
   \<and> \<not> ub (snd (libmedia_request_buffers sp_kernel alloc_world 0 4 (Some 100)))
   \<and> slot_mapped (snd (libmedia_request_buffers sp_kernel alloc_world 0 4 (Some 100))) 100 0
   \<and> slot_mapped (snd (libmedia_request_buffers sp_kernel alloc_world 0 4 (Some 100))) 100 1
   \<and> no_release alloc_world (snd (libmedia_request_buffers sp_kernel alloc_world 0 4 (Some 100)))"
proof -
  define X where "X = libmedia_request_buffers sp_kernel alloc_world 0 4 (Some 100)"
  let ?w1 = "record_call (Sys_ioctl 3 (VIDIOC_REQBUFS V4L2_BUF_TYPE_VIDEO_CAPTURE 4)) alloc_world"
  let ?arr = "[uninit_buffer, uninit_buffer, uninit_buffer, uninit_buffer]"
  have which: "(libmedia_request_buffers = libmedia_request_buffers \<and>
                V4L2_BUF_TYPE_VIDEO_CAPTURE = V4L2_BUF_TYPE_VIDEO_CAPTURE \<and>
                map_buffers = map_buffers) \<or>
               (libmedia_request_buffers = libmedia_request_buffers_mp \<and>
                V4L2_BUF_TYPE_VIDEO_CAPTURE = V4L2_BUF_TYPE_VIDEO_CAPTURE_MPLANE \<and>
                map_buffers = map_buffers_mp)"
    by simp
  have run: "libmedia_request_buffers sp_kernel alloc_world 0 4 (Some 100) = (fst X, snd X)"
    by (simp add: X_def)
  have x: "xioctl sp_kernel (k_reqbufs sp_kernel) alloc_world (fd (g_devices alloc_world (nat 0)))
             (VIDIOC_REQBUFS V4L2_BUF_TYPE_VIDEO_CAPTURE (word_of_int 4)) = (Inr 2, ?w1)"
    by (simp add: xioctl_uninterrupted interrupted_def sp_kernel_def idle_kernel_def
        alloc_world_def opened_world_def video0_def)
  have pre: "Some 100 = Some 100 \<and> is_open alloc_world 0 \<and> 0 < (4 :: int) \<and>
             xioctl sp_kernel (k_reqbufs sp_kernel) alloc_world
               (fd (g_devices alloc_world (nat 0)))
               (VIDIOC_REQBUFS V4L2_BUF_TYPE_VIDEO_CAPTURE (word_of_int 4)) = (Inr 2, ?w1)"
    using is_open_alloc_world x by simp
  have coop: "(\<forall>h. \<exists>vb. k_querybuf sp_kernel h = Inr vb \<and>
                 (V4L2_BUF_TYPE_VIDEO_CAPTURE = V4L2_BUF_TYPE_VIDEO_CAPTURE_MPLANE \<longrightarrow>
                    unat (vb_length vb) \<le> VIDEO_MAX_PLANES)) \<and>
              (\<forall>h. k_mmap sp_kernel h \<noteq> None)"
    by (simp add: sp_kernel_def idle_kernel_def)
  have room: "heap alloc_world 100 = Some ?arr \<and> unat (2 :: 32 word) \<le> length ?arr \<and>
              (V4L2_BUF_TYPE_VIDEO_CAPTURE = V4L2_BUF_TYPE_VIDEO_CAPTURE_MPLANE \<longrightarrow>
                 (\<forall>h vb. k_querybuf sp_kernel h = Inr vb \<longrightarrow>
                    unat (vb_length vb) \<le> VIDEO_MAX_PLANES))"
    by (simp add: alloc_world_def)
  note t = request_buffers_outcome [OF which run]
  note t1 = t [THEN conjunct1]
  note t2 = t [THEN conjunct2, THEN conjunct1]
  note t5 = t [THEN conjunct2, THEN conjunct2, THEN conjunct2, THEN conjunct2, rule_format,
               OF pre]
  have ok: "fst (map_buffers sp_kernel ?w1 (fd (g_devices alloc_world (nat 0))) 100 0
                   (unat (2 :: 32 word)))"
    by (rule t5 [THEN conjunct2, THEN conjunct1, rule_format, OF coop])
  have r: "fst X = 2"
    using t5 [THEN conjunct1] ok by simp
  have "ub (snd X) = ub alloc_world"
    by (rule t5 [THEN conjunct2, THEN conjunct2, rule_format, OF room])
  then have nub: "\<not> ub (snd X)" by (simp add: alloc_world_def opened_world_def)
  have all: "\<forall>j < unat (2 :: 32 word). slot_mapped (snd X) 100 j"
    using t1 r x nub by (elim disjE exE conjE) simp_all
  have s0: "slot_mapped (snd X) 100 0" using all [rule_format, of 0] by simp
  have s1: "slot_mapped (snd X) 100 1" using all [rule_format, of 1] by simp
  show ?thesis
    using r nub s0 s1 t2 unfolding X_def by simp
qed

text \<open>
  The claim as stated fails. Four buffers are requested and the hardware grants two:
  \<open>libmedia_request_buffers\<close> and \<open>libmedia_request_buffers_mp\<close> return 2 and record a pool
  of two, a partial success. With a kernel whose second \<open>mmap\<close> fails they return -1 (the
  single-plane one with \<open>MEDIA_ERROR_OUT_OF_MEMORY\<close>, recording no pool), while the mapping
  of the first buffer is still in place.
\<close>

theorem request_buffers_counterexample:
  "fst (libmedia_request_buffers sp_kernel alloc_world 0 4 (Some 100)) = 2
   \<and> buffer_count
        (g_devices (snd (libmedia_request_buffers sp_kernel alloc_world 0 4 (Some 100))) 0) = 2
   \<and> fst (libmedia_request_buffers_mp idle_kernel alloc_world 0 4 (Some 100)) = 2
   \<and> buffer_count
        (g_devices (snd (libmedia_request_buffers_mp idle_kernel alloc_world 0 4 (Some 100))) 0)
       = 2
   \<and> fst (libmedia_request_buffers leaky_kernel alloc_world 0 4 (Some 100)) = - 1
   \<and> mapped alloc_world = []
   \<and> mapped (snd (libmedia_request_buffers leaky_kernel alloc_world 0 4 (Some 100))) =
       [(4096, 614400)]
   \<and> buffers
        (g_devices (snd (libmedia_request_buffers leaky_kernel alloc_world 0 4 (Some 100))) 0)
       = None
   \<and> libmedia_get_last_error
        (snd (libmedia_request_buffers leaky_kernel alloc_world 0 4 (Some 100)))
       = MEDIA_ERROR_OUT_OF_MEMORY
   \<and> fst (libmedia_request_buffers_mp leaky_mp_kernel alloc_world 0 4 (Some 100)) = - 1
   \<and> mapped (snd (libmedia_request_buffers_mp leaky_mp_kernel alloc_world 0 4 (Some 100))) =
       [(4096, 614400)]"
  using request_example request_mp_example request_leak_example request_mp_leak_example
  by (simp add: alloc_world_def opened_world_def)

section \<open>The device registry\<close>

lemma find_device_registry:
  "g_device_count (snd (find_device w h)) = g_device_count w"
  "g_initialized (snd (find_device w h)) = g_initialized w"
  by (simp_all add: find_device_def set_last_error_def)

lemma free_buffers_registry:
  "g_device_count (snd (libmedia_free_buffers w h bufs n)) = g_device_count w"
  "g_initialized (snd (libmedia_free_buffers w h bufs n)) = g_initialized w"
proof -
  have "g_device_count (snd (libmedia_free_buffers w h bufs n)) = g_device_count w \<and>
        g_initialized (snd (libmedia_free_buffers w h bufs n)) = g_initialized w"
  proof (cases "is_open w h \<and> bufs \<noteq> None \<and> 0 < n")
    case True
    then obtain bp where "bufs = Some bp" by auto
    with True show ?thesis by (simp add: free_buffers_open dev_update_def)
  next
    case False
    then have "\<not> is_open w h \<or> bufs = None \<or> n \<le> 0" by auto
    then show ?thesis by (simp add: free_buffers_rejected set_last_error_def)
  qed
  then show "g_device_count (snd (libmedia_free_buffers w h bufs n)) = g_device_count w"
    "g_initialized (snd (libmedia_free_buffers w h bufs n)) = g_initialized w"
    by simp_all
qed

lemma stop_streaming_registry:
  "g_device_count (snd (libmedia_stop_streaming K w h)) = g_device_count w"
  "g_initialized (snd (libmedia_stop_streaming K w h)) = g_initialized w"
  "g_device_count (snd (libmedia_stop_streaming_mp K w h)) = g_device_count w"
  "g_initialized (snd (libmedia_stop_streaming_mp K w h)) = g_initialized w"
proof -
  have x: "g_device_count w1 = g_device_count w \<and> g_initialized w1 = g_initialized w"
    if "xioctl K (k_streamoff K) w f req = (a, w1)" for f req a w1
    using xioctl_fields' [OF that] by simp
  have "g_device_count (snd (libmedia_stop_streaming K w h)) = g_device_count w \<and>
        g_initialized (snd (libmedia_stop_streaming K w h)) = g_initialized w \<and>
        g_device_count (snd (libmedia_stop_streaming_mp K w h)) = g_device_count w \<and>
        g_initialized (snd (libmedia_stop_streaming_mp K w h)) = g_initialized w"
  proof (cases "is_open w h")
    case True
    show ?thesis
      by (auto simp: stop_streaming_open [OF True] stop_streaming_mp_open [OF True]
          set_last_error_def dev_update_def dest: x split: prod.splits sum.splits)
  next
    case False
    then have "fst (find_device w h) = None"
      by (auto simp: find_device_def is_open_def)
    then show ?thesis
      using find_device_registry [of w h]
      by (cases "find_device w h")
         (simp add: libmedia_stop_streaming_def libmedia_stop_streaming_mp_def)
  qed
  then show "g_device_count (snd (libmedia_stop_streaming K w h)) = g_device_count w"
    "g_initialized (snd (libmedia_stop_streaming K w h)) = g_initialized w"
    "g_device_count (snd (libmedia_stop_streaming_mp K w h)) = g_device_count w"
    "g_initialized (snd (libmedia_stop_streaming_mp K w h)) = g_initialized w"
    by simp_all
qed

lemma close_device_registry:
  "g_device_count (snd (libmedia_close_device K w h)) = g_device_count w"
  "g_initialized (snd (libmedia_close_device K w h)) = g_initialized w"
proof -
  have "g_device_count (snd (libmedia_close_device K w h)) = g_device_count w \<and>
        g_initialized (snd (libmedia_close_device K w h)) = g_initialized w"
  proof (cases "is_open w h")
    case True
    show ?thesis
      by (simp add: close_device_open [OF True] forced_stop_def forced_free_def Let_def
          sys_close_def record_call_def dev_update_def stop_streaming_registry
          free_buffers_registry split: option.splits)
  next
    case False
    then have "fst (find_device w h) = None"
      by (auto simp: find_device_def is_open_def)
    then show ?thesis
      using find_device_registry [of w h]
      by (cases "find_device w h") (simp add: libmedia_close_device_def)
  qed
  then show "g_device_count (snd (libmedia_close_device K w h)) = g_device_count w"
    "g_initialized (snd (libmedia_close_device K w h)) = g_initialized w"
    by simp_all
qed

lemma open_device_registry:
  assumes "g_initialized w \<noteq> 0" and "0 \<le> g_device_count w"
    and "libmedia_open_device K w p = (r, w')"
  shows "g_initialized w' = g_initialized w \<and>
         (if r = - 1 then g_device_count w' = g_device_count w
          else r = g_device_count w \<and> r < MAX_DEVICES \<and> g_device_count w' = r + 1)"
  using assms
  by (auto simp: libmedia_open_device_def sys_open_def set_last_error_def dev_update_def
      record_call_def Let_def split: option.splits if_splits)

text \<open>
  C10. Within one initialisation of the library (no \<open>libmedia_deinit\<close> among the calls)
  registry slots are never handed out again: the handles returned by the successful
  opens of any sequence of opens and closes are exactly the successive values of the
  device count, which never decreases and never passes \<open>MAX_DEVICES\<close>; so at most 16
  opens succeed, and once the count is 16 every open fails, whatever has been closed.
\<close>

theorem registry_slots_not_reused:
  assumes "g_initialized w \<noteq> 0" and "0 \<le> g_device_count w"
    and "Deinit \<notin> set cs" and "calls K w cs = (rs, w')"
  shows "filter (\<lambda>r. r \<noteq> - 1) rs = [g_device_count w .. g_device_count w' - 1]
       \<and> g_device_count w \<le> g_device_count w'
       \<and> g_device_count w' \<le> max MAX_DEVICES (g_device_count w)
       \<and> g_initialized w' \<noteq> 0
       \<and> length (filter (\<lambda>r. r \<noteq> - 1) rs) \<le> 16
       \<and> (MAX_DEVICES \<le> g_device_count w \<longrightarrow> (\<forall>r \<in> set rs. r = - 1))"
proof -
  have main: "filter (\<lambda>r. r \<noteq> - 1) rs = [g_device_count w .. g_device_count w' - 1]
       \<and> g_device_count w \<le> g_device_count w'
       \<and> g_device_count w' \<le> max MAX_DEVICES (g_device_count w)
       \<and> g_initialized w' \<noteq> 0"
    using assms
  proof (induction cs arbitrary: w rs)
    case Nil
    then show ?case by simp
  next
    case (Cons c cs)
    show ?case
    proof (cases c)
      case (Open p)
      obtain r w1 where o: "libmedia_open_device K w p = (r, w1)"
        by (cases "libmedia_open_device K w p")
      obtain rs1 where run: "calls K w1 cs = (rs1, w')" and rs: "rs = r # rs1"
        using Cons.prems(4) Open o by (auto split: prod.splits)
      note e = open_device_registry [OF Cons.prems(1) Cons.prems(2) o]
      have i1: "g_initialized w1 \<noteq> 0" using e Cons.prems(1) by simp
      have c1: "0 \<le> g_device_count w1" using e Cons.prems(2) by (auto split: if_splits)
      have nd: "Deinit \<notin> set cs" using Cons.prems(3) by simp
      note ih = Cons.IH [OF i1 c1 nd run]
      show ?thesis
      proof (cases "r = - 1")
        case True
        then have "g_device_count w1 = g_device_count w" using e by simp
        with ih True rs show ?thesis by simp
      next
        case False
        then have s: "r = g_device_count w" "r < MAX_DEVICES" "g_device_count w1 = r + 1"
          using e by simp_all
        have "[g_device_count w .. g_device_count w' - 1] =
                g_device_count w # [g_device_count w + 1 .. g_device_count w' - 1]"
          using ih s by (simp add: upto_rec1)
        with ih s False rs show ?thesis by (auto simp: MAX_DEVICES_def)
      qed
    next
      case (Close h)
      let ?w1 = "snd (libmedia_close_device K w h)"
      have run: "calls K ?w1 cs = (rs, w')" using Cons.prems(4) Close by simp
      have i1: "g_initialized ?w1 \<noteq> 0" using Cons.prems(1) by (simp add: close_device_registry)
      have c1: "0 \<le> g_device_count ?w1" using Cons.prems(2) by (simp add: close_device_registry)
      have nd: "Deinit \<notin> set cs" using Cons.prems(3) by simp
      from Cons.IH [OF i1 c1 nd run] show ?thesis by (simp add: close_device_registry)
    next
      case Deinit
      with Cons.prems(3) show ?thesis by simp
    qed
  qed
  have len: "length (filter (\<lambda>r. r \<noteq> - 1) rs) \<le> 16"
  proof -
    have "length (filter (\<lambda>r. r \<noteq> - 1) rs) = nat (g_device_count w' - g_device_count w)"
      using main by simp
    moreover have "g_device_count w' - g_device_count w \<le> 16"
      using main assms(2) by (simp add: MAX_DEVICES_def max_def split: if_splits)
    ultimately show ?thesis by simp
  qed
  have full: "\<forall>r \<in> set rs. r = - 1" if "MAX_DEVICES \<le> g_device_count w"
  proof -
    from main that have "filter (\<lambda>r. r \<noteq> - 1) rs = []" by simp
    then show ?thesis by (simp add: filter_empty_conv)
  qed
  from main len full show ?thesis by simp
qed

lemma ready_world_registry:
  "g_initialized ready_world = 1" "g_device_count ready_world = 0"
  by (simp_all add: ready_world_def libmedia_init_def boot_def)

theorem registry_slots_not_reused_witness:
  "g_initialized ready_world \<noteq> 0 \<and> 0 \<le> g_device_count ready_world
   \<and> Deinit \<notin> set [Open (Some ''/dev/video0''), Close 0, Open (Some ''/dev/video0'')]
   \<and> fst (calls idle_kernel ready_world
            [Open (Some ''/dev/video0''), Close 0, Open (Some ''/dev/video0'')]) = [0, 1]
   \<and> g_device_count (snd (calls idle_kernel ready_world
            [Open (Some ''/dev/video0''), Close 0, Open (Some ''/dev/video0'')])) = 2"
proof -
  let ?cs = "[Open (Some ''/dev/video0''), Close 0, Open (Some ''/dev/video0'')]"
  define X where "X = calls idle_kernel ready_world ?cs"
  have i: "g_initialized ready_world \<noteq> 0" and c: "0 \<le> g_device_count ready_world"
    by (simp_all add: ready_world_registry)
  have nd: "Deinit \<notin> set ?cs" by simp
  have run: "calls idle_kernel ready_world ?cs = (fst X, snd X)" by (simp add: X_def)
  have ev: "fst X = [0, 1]"
    unfolding X_def
    by (simp add: ready_world_def libmedia_init_def boot_def libmedia_open_device_def
        libmedia_close_device_def find_device_def sys_open_def sys_close_def record_call_def
        dev_update_def set_last_error_def idle_kernel_def MAX_DEVICES_def zero_device_def
        Let_def)
  from registry_slots_not_reused [OF i c nd run]
  have "filter (\<lambda>r. r \<noteq> - 1) (fst X) = [g_device_count ready_world .. g_device_count (snd X) - 1]"
    by (rule conjunct1)
  then have "[0, 1] = [0 .. g_device_count (snd X) - 1]"
    by (simp add: ev ready_world_registry)
  then have "length [0, 1 :: int] = length [0 .. g_device_count (snd X) - 1]" by simp
  then have "g_device_count (snd X) = 2" by simp
  with i c nd ev show ?thesis unfolding X_def by simp
qed

lemma calls_append:
  "calls K w (cs @ ds) =
     (fst (calls K w cs) @ fst (calls K (snd (calls K w cs)) ds),
      snd (calls K (snd (calls K w cs)) ds))"
proof (induction cs arbitrary: w)
  case Nil
  show ?case by simp
next
  case (Cons c cs)
  show ?case by (cases c) (simp_all add: Cons.IH split: prod.splits)
qed

lemma open_accepted:
  assumes "g_initialized w \<noteq> 0" and "g_device_count w < MAX_DEVICES"
  shows "fst (libmedia_open_device idle_kernel w (Some p)) = g_device_count w"
    and "g_device_count (snd (libmedia_open_device idle_kernel w (Some p))) =
           g_device_count w + 1"
    and "g_initialized (snd (libmedia_open_device idle_kernel w (Some p))) = g_initialized w"
  using assms
  by (simp_all add: libmedia_open_device_def sys_open_def record_call_def dev_update_def
      idle_kernel_def Let_def)

lemma opens_accepted:
  assumes "g_initialized w \<noteq> 0" and "0 \<le> g_device_count w"
    and "g_device_count w + int n \<le> MAX_DEVICES"
  shows "fst (calls idle_kernel w (replicate n (Open (Some p)))) =
           [g_device_count w .. g_device_count w + int n - 1]
       \<and> g_device_count (snd (calls idle_kernel w (replicate n (Open (Some p))))) =
           g_device_count w + int n
       \<and> g_initialized (snd (calls idle_kernel w (replicate n (Open (Some p))))) \<noteq> 0"
  using assms
proof (induction n arbitrary: w)
  case 0
  then show ?case by simp
next
  case (Suc n)
  let ?o = "libmedia_open_device idle_kernel w (Some p)"
  have lt: "g_device_count w < MAX_DEVICES" using Suc.prems(3) by simp
  note o = open_accepted [OF Suc.prems(1) lt, of p]
  have "g_initialized (snd ?o) \<noteq> 0" "0 \<le> g_device_count (snd ?o)"
    "g_device_count (snd ?o) + int n \<le> MAX_DEVICES"
    using o Suc.prems by simp_all
  note ih = Suc.IH [OF this]
  have u: "[g_device_count w .. g_device_count w + int (Suc n) - 1] =
           g_device_count w # [g_device_count w + 1 .. g_device_count w + 1 + int n - 1]"
    by (simp add: upto_rec1 add.commute add.left_commute)
  show ?case
    unfolding u using ih o by (simp add: split_beta add.commute add.left_commute)
qed

lemma closes_registry:
  "fst (calls K w (map Close hs)) = []
   \<and> g_device_count (snd (calls K w (map Close hs))) = g_device_count w
   \<and> g_initialized (snd (calls K w (map Close hs))) = g_initialized w"
  by (induction hs arbitrary: w) (simp_all add: close_device_registry)

lemma open_full:
  "g_initialized w \<noteq> 0 \<Longrightarrow> MAX_DEVICES \<le> g_device_count w \<Longrightarrow>
   libmedia_open_device K w (Some p) = (- 1, set_last_error MEDIA_ERROR_OUT_OF_MEMORY w)"
  by (simp add: libmedia_open_device_def)

lemma deinit_uninitialised: "g_initialized (libmedia_deinit K w) = 0"
  by (simp add: libmedia_deinit_def)

lemma open_uninitialised:
  "g_initialized w = 0 \<Longrightarrow> fst (libmedia_open_device idle_kernel w (Some p)) = 0"
  by (simp add: libmedia_open_device_def libmedia_init_def sys_open_def record_call_def
      dev_update_def idle_kernel_def MAX_DEVICES_def Let_def)

text \<open>
  The claim as stated fails: sixteen opens use up the registry and the seventeenth fails
  although every device has been closed; but after \<open>libmedia_deinit\<close> the next open
  initialises the library again, which resets the device count, and succeeds with
  handle 0, a slot that was handed out before. That is a seventeenth successful open in
  the same process.
\<close>

theorem registry_counterexample:
  "fst (calls idle_kernel ready_world
          (replicate 16 open_video0 @ map Close [0 .. 15] @ [open_video0, Deinit, open_video0]))
     = [0, 1, 2, 3, 4, 5, 6, 7, 8, 9, 10, 11, 12, 13, 14, 15, - 1, 0]"
proof -
  define w1 where "w1 = snd (calls idle_kernel ready_world (replicate 16 open_video0))"
  define w2 where "w2 = snd (calls idle_kernel w1 (map Close [0 .. 15]))"
  define w3 where "w3 = libmedia_deinit idle_kernel (set_last_error MEDIA_ERROR_OUT_OF_MEMORY w2)"
  have "g_initialized ready_world \<noteq> 0" "0 \<le> g_device_count ready_world"
    "g_device_count ready_world + int 16 \<le> MAX_DEVICES"
    by (simp_all add: ready_world_registry MAX_DEVICES_def)
  from opens_accepted [OF this, of "''/dev/video0''"]
  have a: "fst (calls idle_kernel ready_world (replicate 16 open_video0)) = [0 .. 15]"
    and c1: "g_device_count w1 = 16" and i1: "g_initialized w1 \<noteq> 0"
    by (simp_all add: w1_def open_video0_def ready_world_registry)
  have b: "fst (calls idle_kernel w1 (map Close [0 .. 15])) = []"
    and c2: "MAX_DEVICES \<le> g_device_count w2" and i2: "g_initialized w2 \<noteq> 0"
    using closes_registry [of idle_kernel w1 "[0 .. 15]"] c1 i1
    by (simp_all add: w2_def MAX_DEVICES_def)
  have i3: "g_initialized w3 = 0" by (simp add: w3_def deinit_uninitialised)
  have c: "fst (calls idle_kernel w2 [open_video0, Deinit, open_video0]) = [- 1, 0]"
    by (simp add: open_video0_def open_full [OF i2 c2] split_beta
        open_uninitialised [OF i3, unfolded w3_def])
  have l: "[0 .. 15] = [0, 1, 2, 3, 4, 5, 6, 7, 8, 9, 10, 11, 12, 13, 14, 15 :: int]"
    by (simp add: upto_rec1)
  have "fst (calls idle_kernel ready_world
          (replicate 16 open_video0 @ map Close [0 .. 15] @ [open_video0, Deinit, open_video0]))
        = fst (calls idle_kernel ready_world (replicate 16 open_video0))
          @ fst (calls idle_kernel w1 (map Close [0 .. 15]))
          @ fst (calls idle_kernel w2 [open_video0, Deinit, open_video0])"
    by (simp only: calls_append w1_def w2_def fst_conv snd_conv)
  also have "\<dots> = [0 .. 15] @ [] @ [- 1, 0]" by (simp only: a b c)
  also have "\<dots> = [0, 1, 2, 3, 4, 5, 6, 7, 8, 9, 10, 11, 12, 13, 14, 15, - 1, 0]"
    by (simp only: l append_Nil append_Cons)
  finally show ?thesis .
qed

end
